theory Spec2Isabelle
  imports Complex_Main "HOL-Library.AList" "HOL-Library.Char_ord" "HOL-Library.List_Lexorder"
begin

section \<open>The musdb indexer: data model\<close>

text \<open>
  The embedded program is \<^verbatim>\<open>src/musdb/__init__.py\<close>, class \<^verbatim>\<open>DB\<close>.
  Exceptions are values of \<open>error\<close>; a method that may raise returns \<open>error + 'a\<close>.
\<close>

datatype error = RuntimeError | AttributeError | KeyError | TypeError | ValueError
  | OverflowError | FileExistsError | NotADirectoryError

text \<open>
  A number of the YAML configuration is an integer or a float; a float (a double) is
  represented by the real it denotes.
\<close>

datatype yaml_number = YInt int | YFloat real

text \<open>The number of bits of a natural number, \<^verbatim>\<open>int.bit_length()\<close>.\<close>

fun bit_length :: "nat \<Rightarrow> nat" where
  "bit_length n = (if n = 0 then 0 else Suc (bit_length (n div 2)))"

declare bit_length.simps [simp del]

text \<open>
  The double nearest to a natural number, as a natural number: numbers of at most 53
  bits are doubles; a longer one is rounded to 53 significant bits, a tie going to the
  even significand.
\<close>

definition round_to_double :: "nat \<Rightarrow> nat" where
  "round_to_double n =
     (if bit_length n \<le> 53 then n
      else (let e = bit_length n - 53;
                q = n div 2 ^ e;
                r = n mod 2 ^ e;
                half = 2 ^ (e - 1)
            in if half < r \<or> (r = half \<and> odd q) then (q + 1) * 2 ^ e else q * 2 ^ e))"

text \<open>
  Python's \<^verbatim>\<open>float(gain)\<close>: a float is returned as it is; an integer is rounded to the
  nearest double, and \<^verbatim>\<open>OverflowError\<close> is raised when that is beyond the range of the
  doubles (the rounded magnitude has more than 1024 bits, that is, reaches \<open>2 ^ 1024\<close>).
\<close>

fun py_float :: "yaml_number \<Rightarrow> error + real" where
  "py_float (YInt i) =
     (let m = round_to_double (nat \<bar>i\<bar>)
      in if 1024 < bit_length m then Inl OverflowError
         else Inr (if i < 0 then - real m else real m))"
| "py_float (YFloat r) = Inr r"

text \<open>
  The loaded configuration \<^verbatim>\<open>self.setup\<close>. Its sections are Python dicts, kept as
  association lists in insertion order.
\<close>

record yaml_setup =
  setup_sample_rate :: real
  setup_sources :: "(string \<times> string) list"
  setup_targets :: "(string \<times> (string \<times> yaml_number) list) list"
  setup_stem_ids :: "(string \<times> int) list"
  setup_validation_tracks :: "string list"
  setup_mixture :: string

text \<open>
  Modelled from the spec: the classes \<^verbatim>\<open>Source\<close>, \<^verbatim>\<open>Target\<close> and \<^verbatim>\<open>MultiTrack\<close> of
  \<^verbatim>\<open>audio_classes\<close>, which is not among the sources. A Source has the attributes name,
  path, stem_id, sample_rate and gain (default 1.0).
\<close>

record source =
  src_name :: string
  src_path :: string
  src_stem_id :: int
  src_sample_rate :: "real option"
  src_gain :: real

text \<open>
  Modelled from the spec: a Target has a name and an ordered sequence of Source
  references. A reference to a Source object of a track is the key under which the
  object is stored in the track's \<^verbatim>\<open>sources\<close> dict: one object is created per key, so
  a key identifies its object, and a write through \<^verbatim>\<open>track.sources[k]\<close> is seen through
  every reference \<open>k\<close>.
\<close>

record target =
  tgt_name :: string
  tgt_sources :: "string list"

text \<open>
  Modelled from the spec: a Track has name, path, subset, is_wav, stem_id and
  sample_rate, and owns the dicts \<^verbatim>\<open>sources\<close> and \<^verbatim>\<open>targets\<close>.
\<close>

record track =
  trk_name :: string
  trk_path :: string
  trk_subset :: string
  trk_is_wav :: bool
  trk_stem_id :: int
  trk_sample_rate :: "real option"
  trk_sources :: "(string \<times> source) list"
  trk_targets :: "(string \<times> target) list"

text \<open>
  The attributes of a \<^verbatim>\<open>DB\<close> object. \<open>db_sample_rate = None\<close> says that the attribute
  \<^verbatim>\<open>sample_rate\<close> was never assigned; \<open>Some v\<close> that it holds \<open>v\<close> (where \<open>v = None\<close> is
  Python's \<^verbatim>\<open>None\<close>).
\<close>

record db =
  db_root :: string
  db_setup :: yaml_setup
  db_sample_rate :: "real option option"
  db_sources_names :: "string list"
  db_targets_names :: "string list"
  db_is_wav :: bool
  db_data_path :: "string option"
  db_instrument :: string
  db_tracks :: "track list"

text \<open>
  What indexing reads of the operating system: \<^verbatim>\<open>os.walk(top)\<close> as the list of triples
  it yields (nothing for a directory that does not exist), \<^verbatim>\<open>os.path.exists\<close>, and
  \<^verbatim>\<open>os.path.expanduser\<close>.
\<close>

record filesystem =
  os_walk :: "string \<Rightarrow> (string \<times> string list \<times> string list) list"
  os_path_exists :: "string \<Rightarrow> bool"
  os_path_expanduser :: "string \<Rightarrow> string"

datatype subsets_arg = SubsetsNone | SubsetsStr string | SubsetsList "string list"

section \<open>Library functions\<close>

text \<open>\<^verbatim>\<open>posixpath.join(a, *p)\<close>.\<close>

definition join_step :: "string \<Rightarrow> string \<Rightarrow> string" where
  "join_step path b =
     (if b \<noteq> [] \<and> hd b = CHR ''/'' then b
      else if path = [] \<or> last path = CHR ''/'' then path @ b
      else path @ ''/'' @ b)"

definition join :: "string \<Rightarrow> string list \<Rightarrow> string" where
  "join a p = foldl join_step a p"

text \<open>Subscription of a dict: \<^verbatim>\<open>d[k]\<close> raises KeyError for a missing key.\<close>

definition getitem :: "('k \<times> 'v) list \<Rightarrow> 'k \<Rightarrow> error + 'v" where
  "getitem d k = (case map_of d k of None \<Rightarrow> Inl KeyError | Some v \<Rightarrow> Inr v)"

text \<open>\<^verbatim>\<open>list.index(x)\<close>: the first position of \<open>x\<close>, ValueError when there is none.\<close>

fun list_index :: "'a list \<Rightarrow> 'a \<Rightarrow> error + nat" where
  "list_index [] x = Inl ValueError"
| "list_index (y # ys) x =
     (if y = x then Inr 0
      else (case list_index ys x of Inl e \<Rightarrow> Inl e | Inr i \<Rightarrow> Inr (Suc i)))"

text \<open>
  A \<^verbatim>\<open>for\<close> loop whose body appends to the list \<^verbatim>\<open>tracks\<close> or raises: the result is
  what the loop appended, in order, or the first exception.
\<close>

fun for_each :: "('a \<Rightarrow> error + 'b list) \<Rightarrow> 'a list \<Rightarrow> error + 'b list" where
  "for_each body [] = Inr []"
| "for_each body (x # xs) =
     (case body x of
        Inl e \<Rightarrow> Inl e
      | Inr ys \<Rightarrow> (case for_each body xs of Inl e \<Rightarrow> Inl e | Inr zs \<Rightarrow> Inr (ys @ zs)))"

section \<open>Target composition\<close>

text \<open>
  The inner loop of \<^verbatim>\<open>create_targets\<close> (lines 230-235) over the items of one target's
  dict: \<open>sources\<close> is the store \<^verbatim>\<open>track.sources\<close>, \<open>target_sources\<close> the list under
  construction.
\<close>

fun add_target_sources ::
  "(string \<times> yaml_number) list \<Rightarrow> (string \<times> source) list \<Rightarrow> string list
     \<Rightarrow> error + (string \<times> source) list \<times> string list" where
  "add_target_sources [] sources target_sources = Inr (sources, target_sources)"
| "add_target_sources ((source, gain) # rest) sources target_sources =
     (if source \<in> set (map fst sources) then
        (case py_float gain of
           Inl e \<Rightarrow> Inl e
         | Inr g \<Rightarrow>
             add_target_sources rest
               (AList.map_entry source (\<lambda>s. s\<lparr>src_gain := g\<rparr>) sources)
               (target_sources @ [source]))
      else add_target_sources rest sources target_sources)"

text \<open>The outer loop of \<^verbatim>\<open>create_targets\<close> (lines 225-242).\<close>

fun add_targets ::
  "(string \<times> (string \<times> yaml_number) list) list \<Rightarrow> (string \<times> source) list
     \<Rightarrow> (string \<times> target) list
     \<Rightarrow> error + (string \<times> source) list \<times> (string \<times> target) list" where
  "add_targets [] sources targets = Inr (sources, targets)"
| "add_targets ((name, target_srcs) # rest) sources targets =
     (case add_target_sources target_srcs sources [] of
        Inl e \<Rightarrow> Inl e
      | Inr (sources', target_sources) \<Rightarrow>
          if target_sources \<noteq> [] then
            add_targets rest sources'
              (AList.update name \<lparr>tgt_name = name, tgt_sources = target_sources\<rparr> targets)
          else add_targets rest sources' targets)"

text \<open>
  \<^verbatim>\<open>create_targets(self, track)\<close> returns the targets and, as its effect, leaves the
  gains written in the track's sources; an exception of \<^verbatim>\<open>float\<close> ends it.
\<close>

definition create_targets :: "db \<Rightarrow> track \<Rightarrow> error + track \<times> (string \<times> target) list" where
  "create_targets self track =
     (case add_targets (setup_targets (db_setup self)) (trk_sources track) [] of
        Inl e \<Rightarrow> Inl e
      | Inr (sources', targets) \<Rightarrow> Inr (track\<lparr>trk_sources := sources'\<rparr>, targets))"

section \<open>Indexing\<close>

text \<open>The loop of lines 197-214, which fills the dict \<^verbatim>\<open>sources\<close> of one track.\<close>

fun add_sources ::
  "db \<Rightarrow> filesystem \<Rightarrow> string \<Rightarrow> string \<Rightarrow> (string \<times> string) list
     \<Rightarrow> (string \<times> source) list \<Rightarrow> error + (string \<times> source) list" where
  "add_sources self fs track_folder folder_num [] sources = Inr sources"
| "add_sources self fs track_folder folder_num ((src, source_file) # rest) sources =
     (let abs_path = join track_folder [folder_num, source_file] in
      if os_path_exists fs abs_path then
        (case getitem (setup_stem_ids (db_setup self)) src of
           Inl e \<Rightarrow> Inl e
         | Inr stem_id \<Rightarrow>
            (case db_sample_rate self of
               None \<Rightarrow> Inl AttributeError
             | Some sample_rate \<Rightarrow>
                 add_sources self fs track_folder folder_num rest
                   (AList.update src
                      \<lparr>src_name = src, src_path = abs_path, src_stem_id = stem_id,
                       src_sample_rate = sample_rate, src_gain = 1\<rparr> sources)))
      else add_sources self fs track_folder folder_num rest sources)"

text \<open>
  The body of the innermost loop (lines 183-218): one track is built for the variant
  folder \<open>folder_num\<close> of \<open>track_folder\<close>. The arguments of \<^verbatim>\<open>MultiTrack(...)\<close> are
  evaluated in the order written, so a missing \<^verbatim>\<open>stem_ids['mixture']\<close> raises before the
  read of \<^verbatim>\<open>self.sample_rate\<close>.
\<close>

definition new_track ::
  "db \<Rightarrow> filesystem \<Rightarrow> string \<Rightarrow> string \<Rightarrow> string \<Rightarrow> string \<Rightarrow> error + track" where
  "new_track self fs sub track_name track_folder folder_num =
     (case getitem (setup_stem_ids (db_setup self)) ''mixture'' of
        Inl e \<Rightarrow> Inl e
      | Inr stem_id \<Rightarrow>
         (case db_sample_rate self of
            None \<Rightarrow> Inl AttributeError
          | Some sample_rate \<Rightarrow>
             (let track = \<lparr>trk_name = track_name,
                           trk_path = join track_folder [folder_num, setup_mixture (db_setup self)],
                           trk_subset = sub, trk_is_wav = db_is_wav self,
                           trk_stem_id = stem_id, trk_sample_rate = sample_rate,
                           trk_sources = [], trk_targets = []\<rparr> in
              case add_sources self fs track_folder folder_num
                     (setup_sources (db_setup self)) [] of
                Inl e \<Rightarrow> Inl e
              | Inr sources \<Rightarrow>
                 (case create_targets self (track\<lparr>trk_sources := sources\<rparr>) of
                    Inl e \<Rightarrow> Inl e
                  | Inr (track', targets) \<Rightarrow> Inr (track'\<lparr>trk_targets := targets\<rparr>)))))"

text \<open>The split test of lines 172-176: \<open>True\<close> where the code runs \<^verbatim>\<open>continue\<close>.\<close>

definition skip_track :: "db \<Rightarrow> string \<Rightarrow> string option \<Rightarrow> string \<Rightarrow> bool" where
  "skip_track self sub split track_name =
     (if sub = ''train'' then
        (if split = Some ''train''
            \<and> track_name \<in> set (setup_validation_tracks (db_setup self)) then True
         else if split = Some ''valid''
            \<and> track_name \<notin> set (setup_validation_tracks (db_setup self)) then True
         else False)
      else False)"

text \<open>The loops of lines 180-218 for one track name that was not skipped.\<close>

definition load_track_folder ::
  "db \<Rightarrow> filesystem \<Rightarrow> string \<Rightarrow> string \<Rightarrow> string \<Rightarrow> error + track list" where
  "load_track_folder self fs sub track_name track_folder =
     for_each (\<lambda>(lvl2, lvl2_folders, lvl2_files).
        for_each (\<lambda>folder_num.
           case new_track self fs sub track_name track_folder folder_num of
             Inl e \<Rightarrow> Inl e
           | Inr track \<Rightarrow> Inr [track])
          (sort lvl2_folders))
       (os_walk fs track_folder)"

text \<open>The loop of lines 171-218 over the sorted folder names of one triple of the walk.\<close>

definition load_folders ::
  "db \<Rightarrow> filesystem \<Rightarrow> string option \<Rightarrow> string \<Rightarrow> string \<Rightarrow> string list
     \<Rightarrow> error + track list" where
  "load_folders self fs split sub subset_folder folders =
     for_each (\<lambda>track_name.
        if skip_track self sub split track_name then Inr []
        else load_track_folder self fs sub track_name
               (join subset_folder [db_instrument self, track_name]))
       (sort folders)"

text \<open>The body of the loop over the subsets (lines 167-218).\<close>

definition load_subset ::
  "db \<Rightarrow> filesystem \<Rightarrow> string option \<Rightarrow> string \<Rightarrow> error + track list" where
  "load_subset self fs split sub =
     (case db_data_path self of
        None \<Rightarrow> Inl TypeError
      | Some data_path \<Rightarrow>
         (let subset_folder = join data_path [sub] in
          for_each (\<lambda>(dirpath, folders, files).
             if db_is_wav self then load_folders self fs split sub subset_folder folders
             else Inr [])
            (os_walk fs (join subset_folder [db_instrument self]))))"

text \<open>The normalisation of the argument \<^verbatim>\<open>subsets\<close> (lines 156-160).\<close>

definition normalize_subsets :: "subsets_arg \<Rightarrow> string list" where
  "normalize_subsets subsets =
     (case subsets of
        SubsetsList l \<Rightarrow> l
      | SubsetsStr s \<Rightarrow> [s]
      | SubsetsNone \<Rightarrow> [''train'', ''test''])"

definition load_mus_tracks ::
  "db \<Rightarrow> filesystem \<Rightarrow> subsets_arg \<Rightarrow> string option \<Rightarrow> error + track list" where
  "load_mus_tracks self fs subsets split =
     (let subsets = normalize_subsets subsets in
      if subsets \<noteq> [''train''] \<and> split \<noteq> None then Inl RuntimeError
      else for_each (load_subset self fs split) subsets)"

text \<open>
  \<^verbatim>\<open>DB.__init__\<close>. The configuration file is read by the YAML loader; its result is the
  argument \<open>cfg\<close>. \<open>init_attributes\<close> is the object as lines 86-105 leave it, before
  the call of \<^verbatim>\<open>load_mus_tracks\<close>.
\<close>

definition init_attributes ::
  "filesystem \<Rightarrow> string \<Rightarrow> yaml_setup \<Rightarrow> bool \<Rightarrow> real option \<Rightarrow> string option \<Rightarrow> string \<Rightarrow> db" where
  "init_attributes fs r cfg is_wav sample_rate data_path instrument =
     \<lparr>db_root = os_path_expanduser fs r, db_setup = cfg,
      db_sample_rate =
        (if sample_rate \<noteq> Some (setup_sample_rate cfg) then Some sample_rate else None),
      db_sources_names = map fst (setup_sources cfg),
      db_targets_names = map fst (setup_targets cfg),
      db_is_wav = is_wav, db_data_path = data_path,
      db_instrument = instrument, db_tracks = []\<rparr>"

definition init ::
  "filesystem \<Rightarrow> string option \<Rightarrow> yaml_setup \<Rightarrow> bool \<Rightarrow> subsets_arg \<Rightarrow> string option
     \<Rightarrow> real option \<Rightarrow> string option \<Rightarrow> string \<Rightarrow> error + db" where
  "init fs root_arg cfg is_wav subsets split sample_rate data_path instrument =
     (case root_arg of
        None \<Rightarrow> Inl RuntimeError
      | Some r \<Rightarrow>
         (let self = init_attributes fs r cfg is_wav sample_rate data_path instrument in
          case load_mus_tracks self fs subsets split of
            Inl e \<Rightarrow> Inl e
          | Inr tracks \<Rightarrow> Inr (self\<lparr>db_tracks := tracks\<rparr>)))"

section \<open>Lookup by name\<close>

text \<open>
  \<^verbatim>\<open>get_track_indices_by_names\<close>: the list comprehension evaluates the requested names
  in order and stops at the first exception. A single \<^verbatim>\<open>str\<close> is \<open>Inl\<close>.
\<close>

fun indices_of :: "string list \<Rightarrow> string list \<Rightarrow> error + nat list" where
  "indices_of track_names [] = Inr []"
| "indices_of track_names (name # names) =
     (case list_index track_names name of
        Inl e \<Rightarrow> Inl e
      | Inr i \<Rightarrow> (case indices_of track_names names of Inl e \<Rightarrow> Inl e | Inr ixs \<Rightarrow> Inr (i # ixs)))"

definition get_track_indices_by_names :: "db \<Rightarrow> string + string list \<Rightarrow> error + nat list" where
  "get_track_indices_by_names self names =
     (let names = (case names of Inl s \<Rightarrow> [s] | Inr l \<Rightarrow> l) in
      indices_of (map trk_name (db_tracks self)) names)"

section \<open>Writing estimates\<close>

text \<open>
  What \<^verbatim>\<open>save_estimates\<close> changes: the directories that exist and the audio files, each
  with the buffer and the sample rate it was written with.
\<close>

record 'a disk =
  disk_dirs :: "string set"
  disk_files :: "string \<rightharpoonup> ('a \<times> real)"

text \<open>\<^verbatim>\<open>os.path.exists\<close> on that state.\<close>

definition path_exists :: "'a disk \<Rightarrow> string \<Rightarrow> bool" where
  "path_exists d p = (p \<in> disk_dirs d \<or> p \<in> dom (disk_files d))"

text \<open>The proper ancestors of a path: what precedes each separator after the first character.\<close>

definition parents :: "string \<Rightarrow> string list" where
  "parents p = map (\<lambda>i. take i p) (filter (\<lambda>i. p ! i = CHR ''/'') [1..<length p])"

text \<open>
  \<^verbatim>\<open>os.makedirs(p)\<close> with \<^verbatim>\<open>exist_ok=False\<close>: raises \<^verbatim>\<open>FileExistsError\<close> when \<open>p\<close> exists
  and \<^verbatim>\<open>NotADirectoryError\<close> when an ancestor of \<open>p\<close> is a regular file; else it creates
  \<open>p\<close> and its missing ancestors.
\<close>

definition makedirs :: "string \<Rightarrow> 'a disk \<Rightarrow> error + 'a disk" where
  "makedirs p d =
     (if path_exists d p then Inl FileExistsError
      else if \<exists>a\<in>set (parents p). a \<in> dom (disk_files d) then Inl NotADirectoryError
      else Inr (d\<lparr>disk_dirs := disk_dirs d \<union> set (parents p) \<union> {p}\<rparr>))"

text \<open>
  Modelled from the spec: the codec's \<^verbatim>\<open>stempeg.write_audio(path, data, sample_rate)\<close>,
  which persists the buffer at the path, tagged with the sample rate.
\<close>

definition write_audio :: "string \<Rightarrow> 'a \<Rightarrow> real \<Rightarrow> 'a disk \<Rightarrow> 'a disk" where
  "write_audio p data sample_rate d = d\<lparr>disk_files := (disk_files d)(p \<mapsto> (data, sample_rate))\<rparr>"

text \<open>The loop of lines 274-280 over the items of \<^verbatim>\<open>user_estimates\<close>.\<close>

fun write_estimates :: "string \<Rightarrow> real \<Rightarrow> (string \<times> 'a) list \<Rightarrow> 'a disk \<Rightarrow> 'a disk" where
  "write_estimates track_estimate_dir r [] d = d"
| "write_estimates track_estimate_dir r ((target, estimate) # rest) d =
     write_estimates track_estimate_dir r rest
       (write_audio (join track_estimate_dir [target @ ''.wav'']) estimate r d)"

text \<open>
  \<^verbatim>\<open>save_estimates\<close>. The argument \<open>rate\<close> stands for the attribute \<^verbatim>\<open>track.rate\<close> of
  \<^verbatim>\<open>MultiTrack\<close>, the track's sample rate; its class is defined in \<^verbatim>\<open>audio_classes\<close>,
  which is not among the sources.
\<close>

definition save_estimates ::
  "(track \<Rightarrow> real) \<Rightarrow> (string \<times> 'a) list \<Rightarrow> track \<Rightarrow> string \<Rightarrow> bool \<Rightarrow> 'a disk
     \<Rightarrow> error + 'a disk" where
  "save_estimates rate user_estimates track estimates_dir write_stems d =
     (let track_estimate_dir = join estimates_dir [trk_subset track, trk_name track] in
      case (if \<not> path_exists d track_estimate_dir then makedirs track_estimate_dir d
            else Inr d) of
        Inl e \<Rightarrow> Inl e
      | Inr d1 \<Rightarrow>
          if write_stems then Inr d1
          else Inr (write_estimates track_estimate_dir (rate track) user_estimates d1))"

section \<open>The traversal as a list\<close>

text \<open>
  The (subset, track name, track folder, variant folder) quadruples for which the loops
  of \<^verbatim>\<open>load_mus_tracks\<close> reach the construction of a track, in the order they reach them,
  for a data path \<open>data_path\<close>.
\<close>

definition variant_jobs :: "filesystem \<Rightarrow> string \<Rightarrow> string \<Rightarrow> string
    \<Rightarrow> (string \<times> string \<times> string \<times> string) list" where
  "variant_jobs fs sub track_name track_folder =
     concat (map (\<lambda>(lvl2, lvl2_folders, lvl2_files).
                    map (\<lambda>folder_num. (sub, track_name, track_folder, folder_num))
                      (sort lvl2_folders))
               (os_walk fs track_folder))"

definition subset_jobs :: "db \<Rightarrow> filesystem \<Rightarrow> string option \<Rightarrow> string \<Rightarrow> string
    \<Rightarrow> (string \<times> string \<times> string \<times> string) list" where
  "subset_jobs self fs split data_path sub =
     concat (map (\<lambda>(dirpath, folders, files).
                    if db_is_wav self then
                      concat (map (\<lambda>track_name.
                                     variant_jobs fs sub track_name
                                       (join (join data_path [sub]) [db_instrument self, track_name]))
                                (filter (\<lambda>track_name. \<not> skip_track self sub split track_name)
                                   (sort folders)))
                    else [])
               (os_walk fs (join (join data_path [sub]) [db_instrument self])))"

definition track_jobs :: "db \<Rightarrow> filesystem \<Rightarrow> string option \<Rightarrow> string \<Rightarrow> string list
    \<Rightarrow> (string \<times> string \<times> string \<times> string) list" where
  "track_jobs self fs split data_path subsets =
     concat (map (subset_jobs self fs split data_path) subsets)"

text \<open>The body of the innermost loop, run on one such quadruple.\<close>

definition build_job ::
  "db \<Rightarrow> filesystem \<Rightarrow> string \<times> string \<times> string \<times> string \<Rightarrow> error + track list" where
  "build_job self fs job =
     (case job of (sub, track_name, track_folder, folder_num) \<Rightarrow>
        (case new_track self fs sub track_name track_folder folder_num of
           Inl e \<Rightarrow> Inl e
         | Inr track \<Rightarrow> Inr [track]))"

section \<open>A small dataset\<close>

text \<open>
  A configuration with two sources and three targets, and a dataset with the training
  tracks A (variants 0 and 1) and B (variant 0) and the test track C (variant 0). The
  walk of a directory yields the directory and then everything below it.
\<close>

definition example_setup :: yaml_setup where
  "example_setup =
     \<lparr>setup_sample_rate = 44100,
      setup_sources = [(''drums'', ''drums.wav''), (''bass'', ''bass.wav'')],
      setup_targets =
        [(''drums'', [(''drums'', YInt 1)]),
         (''accompaniment'', [(''bass'', YFloat 0.5), (''drums'', YFloat 0.25)]),
         (''bass'', [(''bass'', YInt 1)])],
      setup_stem_ids = [(''mixture'', 0), (''drums'', 1), (''bass'', 2)],
      setup_validation_tracks = [''B''],
      setup_mixture = ''mixture.wav''\<rparr>"

definition example_walk :: "string \<Rightarrow> (string \<times> string list \<times> string list) list" where
  "example_walk dirpath =
     (if dirpath = ''data/train/drums'' then
        [(''data/train/drums'', [''B'', ''A''], []),
         (''data/train/drums/B'', [''0''], []),
         (''data/train/drums/B/0'', [], [''mixture.wav'', ''bass.wav'']),
         (''data/train/drums/A'', [''1'', ''0''], []),
         (''data/train/drums/A/1'', [], [''mixture.wav'', ''drums.wav'']),
         (''data/train/drums/A/0'', [], [''mixture.wav'', ''drums.wav'', ''bass.wav''])]
      else if dirpath = ''data/train/drums/A'' then
        [(''data/train/drums/A'', [''1'', ''0''], []),
         (''data/train/drums/A/1'', [], [''mixture.wav'', ''drums.wav'']),
         (''data/train/drums/A/0'', [], [''mixture.wav'', ''drums.wav'', ''bass.wav''])]
      else if dirpath = ''data/train/drums/B'' then
        [(''data/train/drums/B'', [''0''], []),
         (''data/train/drums/B/0'', [], [''mixture.wav'', ''bass.wav''])]
      else if dirpath = ''data/test/drums'' then
        [(''data/test/drums'', [''C''], []),
         (''data/test/drums/C'', [''0''], []),
         (''data/test/drums/C/0'', [], [''mixture.wav''])]
      else if dirpath = ''data/test/drums/C'' then
        [(''data/test/drums/C'', [''0''], []),
         (''data/test/drums/C/0'', [], [''mixture.wav''])]
      else [])"

definition example_fs :: filesystem where
  "example_fs =
     \<lparr>os_walk = example_walk,
      os_path_exists = (\<lambda>p. p \<in> set
        [''data/train/drums/B/0/mixture.wav'', ''data/train/drums/B/0/bass.wav'',
         ''data/train/drums/A/1/mixture.wav'', ''data/train/drums/A/1/drums.wav'',
         ''data/train/drums/A/0/mixture.wav'', ''data/train/drums/A/0/drums.wav'',
         ''data/train/drums/A/0/bass.wav'', ''data/test/drums/C/0/mixture.wav'']),
      os_path_expanduser = (\<lambda>p. p)\<rparr>"

definition example_db :: "bool \<Rightarrow> db" where
  "example_db is_wav =
     init_attributes example_fs ''root'' example_setup is_wav None (Some ''data'') ''drums''"

definition example_source :: "string \<Rightarrow> source" where
  "example_source n =
     \<lparr>src_name = n, src_path = n @ ''.wav'', src_stem_id = 1, src_sample_rate = None,
      src_gain = 1\<rparr>"

definition example_sources :: "(string \<times> source) list" where
  "example_sources = [(''drums'', example_source ''drums''), (''bass'', example_source ''bass'')]"

definition example_track :: "string \<Rightarrow> string \<Rightarrow> track" where
  "example_track sub n =
     \<lparr>trk_name = n, trk_path = ''mixture.wav'', trk_subset = sub, trk_is_wav = True,
      trk_stem_id = 0, trk_sample_rate = None, trk_sources = [], trk_targets = []\<rparr>"

text \<open>
  A configuration whose second target names a source of the first one again, and a
  track that has both sources.
\<close>

definition overwrite_db :: db where
  "overwrite_db =
     (example_db True)\<lparr>db_setup := example_setup\<lparr>setup_targets :=
        [(''mix'', [(''sourceA'', YFloat 0.5), (''sourceB'', YFloat 1.0)]),
         (''solo'', [(''sourceA'', YFloat 2)])]\<rparr>\<rparr>"

definition overwrite_track :: track where
  "overwrite_track =
     (example_track ''train'' ''A'')\<lparr>trk_sources :=
        [(''sourceA'', example_source ''sourceA''), (''sourceB'', example_source ''sourceB'')]\<rparr>"

definition example_disk :: "nat disk" where
  "example_disk = \<lparr>disk_dirs = {}, disk_files = Map.empty\<rparr>"

section \<open>What composition computes\<close>

text \<open>The float that a declared gain converts to, where the conversion returns.\<close>

definition gain_of :: "yaml_number \<Rightarrow> real" where
  "gain_of g = projr (py_float g)"

text \<open>
  The declared gains of the sources in \<open>K\<close> all convert: \<^verbatim>\<open>float\<close> raises for none of
  the pairs that the inner loop of \<^verbatim>\<open>create_targets\<close> processes.
\<close>

definition converts :: "string set \<Rightarrow> (string \<times> yaml_number) list \<Rightarrow> bool" where
  "converts K items = (\<forall>(s, g)\<in>set items. s \<in> K \<longrightarrow> \<not> isl (py_float g))"

text \<open>
  What the two loops of \<^verbatim>\<open>create_targets\<close> compute when every conversion returns: the
  sources with the gains written, and the source list, respectively the targets.
\<close>

fun apply_target ::
  "(string \<times> yaml_number) list \<Rightarrow> (string \<times> source) list \<Rightarrow> string list
     \<Rightarrow> (string \<times> source) list \<times> string list" where
  "apply_target [] sources target_sources = (sources, target_sources)"
| "apply_target ((source, gain) # rest) sources target_sources =
     (if source \<in> set (map fst sources) then
        apply_target rest
          (AList.map_entry source (\<lambda>s. s\<lparr>src_gain := gain_of gain\<rparr>) sources)
          (target_sources @ [source])
      else apply_target rest sources target_sources)"

fun apply_targets ::
  "(string \<times> (string \<times> yaml_number) list) list \<Rightarrow> (string \<times> source) list
     \<Rightarrow> (string \<times> target) list \<Rightarrow> (string \<times> source) list \<times> (string \<times> target) list" where
  "apply_targets [] sources targets = (sources, targets)"
| "apply_targets ((name, target_srcs) # rest) sources targets =
     (case apply_target target_srcs sources [] of
        (sources', target_sources) \<Rightarrow>
          if target_sources \<noteq> [] then
            apply_targets rest sources'
              (AList.update name \<lparr>tgt_name = name, tgt_sources = target_sources\<rparr> targets)
          else apply_targets rest sources' targets)"

text \<open>
  The names of the declared sources of one target that the track has, in declared order.
\<close>

definition present :: "(string \<times> source) list \<Rightarrow> (string \<times> yaml_number) list \<Rightarrow> string list" where
  "present sources target_srcs = filter (\<lambda>s. s \<in> fst ` set sources) (map fst target_srcs)"

text \<open>
  A source after the (source name, gain) pairs \<open>items\<close> were processed in order: its
  gain is the one of the last pair naming it, and it is unchanged when none does.
\<close>

definition regain :: "(string \<times> yaml_number) list \<Rightarrow> string \<Rightarrow> source \<Rightarrow> source" where
  "regain items s v = (case map_of (rev items) s of None \<Rightarrow> v | Some g \<Rightarrow> v\<lparr>src_gain := gain_of g\<rparr>)"

text \<open>The targets of a specification that have a source in the track, in its order.\<close>

definition composed :: "(string \<times> source) list \<Rightarrow> (string \<times> (string \<times> yaml_number) list) list
    \<Rightarrow> (string \<times> target) list" where
  "composed sources spec =
     map (\<lambda>(name, target_srcs). (name, \<lparr>tgt_name = name, tgt_sources = present sources target_srcs\<rparr>))
       (filter (\<lambda>(name, target_srcs). present sources target_srcs \<noteq> []) spec)"

section \<open>Properties\<close>

subsection \<open>Which exceptions indexing raises\<close>

lemma getitem_Inl: "getitem d k = Inl e \<Longrightarrow> e = KeyError"
  by (simp add: getitem_def split: option.splits)

lemma for_each_Inl: "for_each body xs = Inl e \<Longrightarrow> \<exists>x\<in>set xs. body x = Inl e"
  by (induction xs) (auto split: sum.splits)

lemma for_each_Inr:
  "for_each body xs = Inr ys \<Longrightarrow> (\<forall>x\<in>set xs. \<exists>zs. body x = Inr zs)"
  by (induction xs arbitrary: ys) (auto split: sum.splits)

lemma py_float_Inl: "py_float g = Inl e \<Longrightarrow> e = OverflowError"
  by (cases g) (auto simp: Let_def split: if_splits)

lemma add_target_sources_Inl:
  "add_target_sources target_srcs sources acc = Inl e \<Longrightarrow> e = OverflowError"
  by (induction target_srcs arbitrary: sources acc)
     (auto split: if_splits sum.splits dest: py_float_Inl)

lemma add_targets_Inl: "add_targets spec sources targets = Inl e \<Longrightarrow> e = OverflowError"
  by (induction spec arbitrary: sources targets)
     (auto split: if_splits sum.splits prod.splits dest: add_target_sources_Inl)

lemma create_targets_Inl: "create_targets self track = Inl e \<Longrightarrow> e = OverflowError"
  by (auto simp: create_targets_def split: sum.splits prod.splits dest: add_targets_Inl)

lemma add_sources_Inl:
  "add_sources self fs track_folder folder_num decl sources = Inl e \<Longrightarrow> e = KeyError \<or> e = AttributeError"
  by (induction decl arbitrary: sources)
     (auto simp: Let_def split: if_splits sum.splits option.splits dest: getitem_Inl)

lemma new_track_Inl:
  "new_track self fs sub track_name track_folder folder_num = Inl e \<Longrightarrow>
     e = KeyError \<or> e = AttributeError \<or> e = OverflowError"
  by (auto simp: new_track_def Let_def split: sum.splits option.splits prod.splits
           dest: getitem_Inl add_sources_Inl create_targets_Inl)

lemma load_track_folder_Inl:
  "load_track_folder self fs sub track_name track_folder = Inl e \<Longrightarrow>
     e = KeyError \<or> e = AttributeError \<or> e = OverflowError"
  unfolding load_track_folder_def
  by (auto dest!: for_each_Inl split: sum.splits dest: new_track_Inl)

lemma load_folders_Inl:
  "load_folders self fs split sub subset_folder folders = Inl e \<Longrightarrow>
     e = KeyError \<or> e = AttributeError \<or> e = OverflowError"
  unfolding load_folders_def
  by (auto dest!: for_each_Inl split: if_splits dest: load_track_folder_Inl)

lemma load_subset_Inl:
  "load_subset self fs split sub = Inl e \<Longrightarrow> 
     e = KeyError \<or> e = AttributeError \<or> e = OverflowError \<or> e = TypeError"
  unfolding load_subset_def
  by (auto simp: Let_def dest!: for_each_Inl split: if_splits option.splits dest: load_folders_Inl)

lemma load_subsets_not_RuntimeError:
  "for_each (load_subset self fs split) subsets \<noteq> Inl RuntimeError"
proof
  assume "for_each (load_subset self fs split) subsets = Inl RuntimeError"
  then obtain sub where "load_subset self fs split sub = Inl RuntimeError"
    by (blast dest: for_each_Inl)
  then show False by (auto dest: load_subset_Inl)
qed

text \<open>
  Claim C3: \<^verbatim>\<open>load_mus_tracks\<close> raises the configuration error (RuntimeError) exactly
  when \<open>split\<close> is given and the requested subsets, a single string being normalised to a
  one-element list and \<^verbatim>\<open>None\<close> to \<^verbatim>\<open>['train', 'test']\<close>, are not the list \<^verbatim>\<open>['train']\<close>.
  This holds for every file system: the error does not depend on any traversal.
\<close>

theorem load_mus_tracks_configuration_error:
  "(load_mus_tracks self fs subsets split = Inl RuntimeError)
     = (split \<noteq> None \<and> normalize_subsets subsets \<noteq> [''train''])
   \<and> normalize_subsets (SubsetsStr s) = [s]
   \<and> normalize_subsets SubsetsNone = [''train'', ''test'']
   \<and> normalize_subsets (SubsetsList l) = l"
  by (auto simp: load_mus_tracks_def Let_def normalize_subsets_def load_subsets_not_RuntimeError)

theorem load_mus_tracks_configuration_error_witness:
  "load_mus_tracks (example_db True) example_fs (SubsetsStr ''test'') (Some ''train'')
     = Inl RuntimeError
   \<and> load_mus_tracks (example_db True) example_fs (SubsetsStr ''train'') (Some ''train'')
     \<noteq> Inl RuntimeError"
  using load_mus_tracks_configuration_error
          [of "example_db True" example_fs "SubsetsStr ''test''" "Some ''train''" "''test''"]
        load_mus_tracks_configuration_error
          [of "example_db True" example_fs "SubsetsStr ''train''" "Some ''train''" "''train''"]
  by simp

subsection \<open>The split filter\<close>

lemma for_each_mem:
  "for_each body xs = Inr ys \<Longrightarrow> y \<in> set ys \<Longrightarrow> \<exists>x\<in>set xs. \<exists>zs. body x = Inr zs \<and> y \<in> set zs"
  by (induction xs arbitrary: ys) (auto split: sum.splits)

lemma for_each_skip:
  "for_each (\<lambda>x. if P x then Inr [] else body x) xs = for_each body (filter (\<lambda>x. \<not> P x) xs)"
  by (induction xs) (auto split: sum.splits)

lemma create_targets_fields:
  "create_targets self track = Inr (track', targets) \<Longrightarrow>
     trk_name track' = trk_name track \<and> trk_subset track' = trk_subset track
     \<and> trk_path track' = trk_path track"
  by (auto simp: create_targets_def split: sum.splits prod.splits)

lemma new_track_fields:
  "new_track self fs sub track_name track_folder folder_num = Inr t \<Longrightarrow>
     trk_name t = track_name \<and> trk_subset t = sub
     \<and> trk_path t = join track_folder [folder_num, setup_mixture (db_setup self)]"
  by (auto simp: new_track_def Let_def split: sum.splits option.splits prod.splits
           dest!: create_targets_fields)

lemma load_track_folder_fields:
  "load_track_folder self fs sub track_name track_folder = Inr ts \<Longrightarrow> t \<in> set ts \<Longrightarrow>
     trk_name t = track_name \<and> trk_subset t = sub"
  unfolding load_track_folder_def
  by (fastforce dest!: for_each_mem split: sum.splits dest: new_track_fields)

lemma load_folders_kept:
  "load_folders self fs split sub subset_folder folders = Inr ts \<Longrightarrow> t \<in> set ts \<Longrightarrow>
     trk_subset t = sub \<and> \<not> skip_track self sub split (trk_name t)"
  unfolding load_folders_def
  by (fastforce dest!: for_each_mem split: if_splits dest: load_track_folder_fields)

lemma load_subset_kept:
  "load_subset self fs split sub = Inr ts \<Longrightarrow> t \<in> set ts \<Longrightarrow>
     trk_subset t = sub \<and> \<not> skip_track self sub split (trk_name t)"
  unfolding load_subset_def
  by (fastforce simp: Let_def dest!: for_each_mem split: if_splits option.splits dest: load_folders_kept)

lemma load_mus_tracks_kept:
  "load_mus_tracks self fs subsets split = Inr ts \<Longrightarrow> t \<in> set ts \<Longrightarrow>
     \<not> skip_track self (trk_subset t) split (trk_name t)"
  unfolding load_mus_tracks_def
  by (fastforce simp: Let_def dest!: for_each_mem split: if_splits dest: load_subset_kept)

text \<open>
  Claim C2: in a call that passes the configuration check, a track name of a subset
  other than train, or with no split, is kept; with \<open>split = 'train'\<close> it is kept exactly
  when it is not a validation track, and with \<open>split = 'valid'\<close> exactly when it is one.
  The test comes before any construction: the loop over the folder names is the loop
  over the kept names only, and no track of the catalog bears a skipped name.
\<close>

theorem split_filter:
  assumes "\<not> (normalize_subsets subsets \<noteq> [''train''] \<and> split \<noteq> None)"
    and "sub \<in> set (normalize_subsets subsets)"
  shows "(sub \<noteq> ''train'' \<or> split = None \<longrightarrow> \<not> skip_track self sub split track_name)
    \<and> (split = Some ''train'' \<longrightarrow>
         (\<not> skip_track self sub split track_name)
           = (track_name \<notin> set (setup_validation_tracks (db_setup self))))
    \<and> (split = Some ''valid'' \<longrightarrow>
         (\<not> skip_track self sub split track_name)
           = (track_name \<in> set (setup_validation_tracks (db_setup self))))
    \<and> load_folders self fs split sub subset_folder folders =
         for_each (\<lambda>track_name. load_track_folder self fs sub track_name
                      (join subset_folder [db_instrument self, track_name]))
           (filter (\<lambda>track_name. \<not> skip_track self sub split track_name) (sort folders))
    \<and> (\<forall>tracks. load_mus_tracks self fs subsets split = Inr tracks \<longrightarrow>
          (\<forall>t\<in>set tracks. \<not> skip_track self (trk_subset t) split (trk_name t)))"
  using assms
  by (auto simp: skip_track_def load_folders_def for_each_skip dest: load_mus_tracks_kept)

theorem split_filter_witness:
  "\<not> (normalize_subsets (SubsetsStr ''train'') \<noteq> [''train''] \<and> Some ''valid'' \<noteq> None)
   \<and> ''train'' \<in> set (normalize_subsets (SubsetsStr ''train''))
   \<and> \<not> skip_track (example_db True) ''train'' (Some ''valid'') ''B''"
proof -
  have h1: "\<not> (normalize_subsets (SubsetsStr ''train'') \<noteq> [''train''] \<and> Some ''valid'' \<noteq> None)"
    by (simp add: normalize_subsets_def)
  have h2: "''train'' \<in> set (normalize_subsets (SubsetsStr ''train''))"
    by (simp add: normalize_subsets_def)
  show ?thesis
    using h1 h2 split_filter [OF h1 h2, of "example_db True" "''B''"]
    by (simp add: example_db_def init_attributes_def example_setup_def)
qed

subsection \<open>Lookup by name\<close>

lemma list_index_Inr:
  "(list_index xs x = Inr i) = (i < length xs \<and> xs ! i = x \<and> (\<forall>j<i. xs ! j \<noteq> x))"
proof (induction xs arbitrary: i)
  case Nil
  then show ?case by simp
next
  case (Cons y ys)
  show ?case
  proof (cases "y = x")
    case True
    then show ?thesis by (cases i) auto
  next
    case False
    then have "(list_index (y # ys) x = Inr i) = (\<exists>k. i = Suc k \<and> list_index ys x = Inr k)"
      by (auto split: sum.splits)
    also have "\<dots> = (\<exists>k. i = Suc k \<and> k < length ys \<and> ys ! k = x \<and> (\<forall>j<k. ys ! j \<noteq> x))"
      by (simp add: Cons.IH)
    also have "\<dots> = (i < length (y # ys) \<and> (y # ys) ! i = x \<and> (\<forall>j<i. (y # ys) ! j \<noteq> x))"
      using False by (cases i) (auto simp: All_less_Suc2)
    finally show ?thesis .
  qed
qed

lemma list_index_Inl: "(list_index xs x = Inl e) = (x \<notin> set xs \<and> e = ValueError)"
  by (induction xs) (auto split: sum.splits)

lemma indices_of_Inr:
  "set names \<subseteq> set xs \<Longrightarrow>
     \<exists>ixs. indices_of xs names = Inr ixs \<and> length ixs = length names
       \<and> (\<forall>k<length names. list_index xs (names ! k) = Inr (ixs ! k))"
proof (induction names)
  case Nil
  then show ?case by simp
next
  case (Cons n names)
  then obtain ixs where ixs: "indices_of xs names = Inr ixs" "length ixs = length names"
      "\<forall>k<length names. list_index xs (names ! k) = Inr (ixs ! k)"
    by auto
  from Cons.prems obtain i where i: "list_index xs n = Inr i"
    by (cases "list_index xs n") (auto simp: list_index_Inl)
  show ?case using ixs i by (auto simp: nth_Cons')
qed

lemma list_index_Inr_mem: "list_index xs x = Inr i \<Longrightarrow> x \<in> set xs"
  by (auto simp: list_index_Inr)

lemma indices_of_Inl_iff:
  "(indices_of xs names = Inl e) = (\<not> set names \<subseteq> set xs \<and> e = ValueError)"
  by (induction names) (auto split: sum.splits simp: list_index_Inl dest: list_index_Inr_mem)

lemma indices_of_Inl:
  "\<not> set names \<subseteq> set xs \<Longrightarrow> indices_of xs names = Inl ValueError"
  by (simp add: indices_of_Inl_iff)

text \<open>
  Claim C8: when every requested name is the name of some track of the catalog,
  \<^verbatim>\<open>get_track_indices_by_names\<close> returns, per requested name and in request order, the
  position of the first track bearing that name; when some requested name is absent it
  raises ValueError. A single string is a request for that one name.
\<close>

theorem get_track_indices_by_names_first_match:
  "(set names \<subseteq> trk_name ` set (db_tracks self) \<longrightarrow>
      (\<exists>ixs. get_track_indices_by_names self (Inr names) = Inr ixs
         \<and> length ixs = length names
         \<and> (\<forall>k<length names.
               ixs ! k < length (db_tracks self)
               \<and> trk_name (db_tracks self ! (ixs ! k)) = names ! k
               \<and> (\<forall>j<ixs ! k. trk_name (db_tracks self ! j) \<noteq> names ! k))))
   \<and> (\<not> set names \<subseteq> trk_name ` set (db_tracks self) \<longrightarrow>
        get_track_indices_by_names self (Inr names) = Inl ValueError)
   \<and> get_track_indices_by_names self (Inl name) = get_track_indices_by_names self (Inr [name])"
proof (intro conjI impI)
  assume "set names \<subseteq> trk_name ` set (db_tracks self)"
  then have "set names \<subseteq> set (map trk_name (db_tracks self))" by simp
  from indices_of_Inr[OF this] obtain ixs where
    ixs: "indices_of (map trk_name (db_tracks self)) names = Inr ixs" "length ixs = length names"
      "\<forall>k<length names. list_index (map trk_name (db_tracks self)) (names ! k) = Inr (ixs ! k)"
    by blast
  have "\<forall>k<length names.
          ixs ! k < length (db_tracks self)
          \<and> trk_name (db_tracks self ! (ixs ! k)) = names ! k
          \<and> (\<forall>j<ixs ! k. trk_name (db_tracks self ! j) \<noteq> names ! k)"
  proof (intro allI impI)
    fix k assume "k < length names"
    with ixs(3) have "list_index (map trk_name (db_tracks self)) (names ! k) = Inr (ixs ! k)"
      by blast
    then show "ixs ! k < length (db_tracks self)
          \<and> trk_name (db_tracks self ! (ixs ! k)) = names ! k
          \<and> (\<forall>j<ixs ! k. trk_name (db_tracks self ! j) \<noteq> names ! k)"
      by (auto simp: list_index_Inr)
  qed
  with ixs(1,2) show "\<exists>ixs. get_track_indices_by_names self (Inr names) = Inr ixs
         \<and> length ixs = length names
         \<and> (\<forall>k<length names.
               ixs ! k < length (db_tracks self)
               \<and> trk_name (db_tracks self ! (ixs ! k)) = names ! k
               \<and> (\<forall>j<ixs ! k. trk_name (db_tracks self ! j) \<noteq> names ! k))"
    by (simp add: get_track_indices_by_names_def)
next
  assume "\<not> set names \<subseteq> trk_name ` set (db_tracks self)"
  then have "\<not> set names \<subseteq> set (map trk_name (db_tracks self))" by simp
  from indices_of_Inl[OF this]
  show "get_track_indices_by_names self (Inr names) = Inl ValueError"
    by (simp add: get_track_indices_by_names_def)
next
  show "get_track_indices_by_names self (Inl name) = get_track_indices_by_names self (Inr [name])"
    by (simp add: get_track_indices_by_names_def)
qed

theorem get_track_indices_by_names_first_match_witness:
  "set [''B'', ''A''] \<subseteq> trk_name ` set (db_tracks ((example_db True)
       \<lparr>db_tracks := [example_track ''train'' ''A'', example_track ''train'' ''B'',
                      example_track ''test'' ''A'']\<rparr>))
   \<and> get_track_indices_by_names ((example_db True)
       \<lparr>db_tracks := [example_track ''train'' ''A'', example_track ''train'' ''B'',
                      example_track ''test'' ''A'']\<rparr>) (Inr [''B'', ''A'']) = Inr [1, 0]
   \<and> get_track_indices_by_names ((example_db True)
       \<lparr>db_tracks := [example_track ''train'' ''A'', example_track ''train'' ''B'',
                      example_track ''test'' ''A'']\<rparr>) (Inr [''Z'']) = Inl ValueError"
  using get_track_indices_by_names_first_match
          [of "[''B'', ''A'']" "(example_db True)
       \<lparr>db_tracks := [example_track ''train'' ''A'', example_track ''train'' ''B'',
                      example_track ''test'' ''A'']\<rparr>"]
        get_track_indices_by_names_first_match
          [of "[''Z'']" "(example_db True)
       \<lparr>db_tracks := [example_track ''train'' ''A'', example_track ''train'' ''B'',
                      example_track ''test'' ''A'']\<rparr>"]
  by (simp add: get_track_indices_by_names_def example_track_def)

subsection \<open>Target composition\<close>

lemma map_entry_keys: "map fst (AList.map_entry k f xs) = map fst xs"
  by (induction xs) auto

lemma update_fresh: "k \<notin> fst ` set al \<Longrightarrow> AList.update k v al = al @ [(k, v)]"
  by (induction al) auto

lemma apply_target_keys:
  "map fst (fst (apply_target target_srcs sources acc)) = map fst sources"
  by (induction target_srcs arbitrary: sources acc) (auto simp: map_entry_keys)

lemma apply_target_refs:
  "snd (apply_target target_srcs sources acc) = acc @ present sources target_srcs"
proof (induction target_srcs arbitrary: sources acc)
  case Nil
  then show ?case by (simp add: present_def)
next
  case (Cons p rest)
  obtain k g where p: "p = (k, g)" by (cases p)
  show ?case
    by (simp add: p Cons.IH present_def AList.dom_map_entry)
qed

lemma apply_target_store:
  "map_of (fst (apply_target target_srcs sources acc)) s
     = map_option (regain target_srcs s) (map_of sources s)"
proof (induction target_srcs arbitrary: sources acc)
  case Nil
  then show ?case by (simp add: regain_def option.map_ident)
next
  case (Cons p rest)
  obtain k g where p: "p = (k, g)" by (cases p)
  show ?case
  proof (cases "k \<in> fst ` set sources")
    case True
    then show ?thesis
      by (cases "map_of sources s")
         (auto simp: p Cons.IH regain_def AList.map_of_map_entry map_of_append
               split: option.splits)
  next
    case False
    then have "map_of sources k = None" by (simp add: map_of_eq_None_iff)
    with False show ?thesis
      by (cases "map_of sources s")
         (auto simp: p Cons.IH regain_def map_of_append split: option.splits if_splits)
  qed
qed

lemma regain_idem:
  "regain items s (regain items' s v)
     = (case map_of (rev items) s of None \<Rightarrow> regain items' s v | Some g \<Rightarrow> v\<lparr>src_gain := gain_of g\<rparr>)"
  by (auto simp: regain_def split: option.splits)

lemma apply_targets_keys:
  "map fst (fst (apply_targets spec sources targets)) = map fst sources"
proof (induction spec arbitrary: sources targets)
  case Nil
  then show ?case by simp
next
  case (Cons p rest)
  obtain name target_srcs where p: "p = (name, target_srcs)" by (cases p)
  have "map fst (fst (apply_target target_srcs sources [])) = map fst sources"
    by (rule apply_target_keys)
  then show ?case
    by (auto simp: p Cons.IH split: prod.splits)
qed

lemma apply_targets_store:
  "map_of (fst (apply_targets spec sources targets)) s
     = map_option (regain (concat (map snd spec)) s) (map_of sources s)"
proof (induction spec arbitrary: sources targets)
  case Nil
  then show ?case by (simp add: regain_def option.map_ident)
next
  case (Cons p rest)
  obtain name target_srcs where p: "p = (name, target_srcs)" by (cases p)
  obtain sources' refs where a: "apply_target target_srcs sources [] = (sources', refs)"
    by (cases "apply_target target_srcs sources []")
  have s': "map_of sources' s = map_option (regain target_srcs s) (map_of sources s)"
    using apply_target_store[of target_srcs sources "[]" s] a by simp
  have "map_of (fst (apply_targets (p # rest) sources targets)) s
          = map_option (regain (concat (map snd rest)) s) (map_of sources' s)"
    by (simp add: p a Cons.IH)
  also have "\<dots> = map_option (regain (concat (map snd (p # rest))) s) (map_of sources s)"
    by (cases "map_of sources s")
       (auto simp: s' p regain_def map_of_append split: option.splits)
  finally show ?case .
qed

lemma apply_targets_targets:
  "distinct (map fst targets @ map fst spec) \<Longrightarrow>
     snd (apply_targets spec sources targets) = targets @ composed sources spec"
proof (induction spec arbitrary: sources targets)
  case Nil
  then show ?case by (simp add: composed_def)
next
  case (Cons p rest)
  obtain name target_srcs where p: "p = (name, target_srcs)" by (cases p)
  obtain sources' refs where a: "apply_target target_srcs sources [] = (sources', refs)"
    by (cases "apply_target target_srcs sources []")
  have refs: "refs = present sources target_srcs"
    using apply_target_refs[of target_srcs sources "[]"] a by simp
  have keys: "fst ` set sources' = fst ` set sources"
    using apply_target_keys[of target_srcs sources "[]"] a
    by (metis fst_conv list.set_map)
  have same: "\<And>ts. present sources' ts = present sources ts"
    by (simp add: present_def keys)
  from Cons.prems have fresh: "name \<notin> fst ` set targets"
    and d1: "distinct (map fst (targets @ [(name, \<lparr>tgt_name = name, tgt_sources = refs\<rparr>)]) @ map fst rest)"
    and d2: "distinct (map fst targets @ map fst rest)"
    by (auto simp: p)
  show ?case
  proof (cases "refs = []")
    case True
    then show ?thesis
      using Cons.IH[OF d2, of sources'] refs
      by (simp add: p a same composed_def)
  next
    case False
    then show ?thesis
      using Cons.IH[OF d1, of sources'] refs fresh
      by (simp add: p a same composed_def update_fresh)
  qed
qed

lemma distinct_map_of_rev_eq: "distinct (map fst xs) \<Longrightarrow> map_of (rev xs) k = map_of xs k"
proof (induction xs)
  case Nil
  then show ?case by simp
next
  case (Cons p xs)
  obtain a b where p: "p = (a, b)" by (cases p)
  from Cons.prems have fresh: "map_of xs a = None" and d: "distinct (map fst xs)"
    by (auto simp: p map_of_eq_None_iff)
  show ?case
    using Cons.IH[OF d] fresh
    by (cases "map_of xs k") (auto simp: p map_add_def)
qed

lemma present_nonempty:
  "(present sources target_srcs \<noteq> []) = (\<exists>s\<in>fst ` set target_srcs. s \<in> fst ` set sources)"
  by (auto simp: present_def filter_empty_conv)

lemma composed_alt:
  "composed sources spec
     = map (\<lambda>(name, target_srcs).
              (name, \<lparr>tgt_name = name,
                      tgt_sources = filter (\<lambda>s. s \<in> fst ` set sources) (map fst target_srcs)\<rparr>))
         (filter (\<lambda>(name, target_srcs). \<exists>s\<in>fst ` set target_srcs. s \<in> fst ` set sources) spec)"
proof -
  have eq: "(\<lambda>(name::string, target_srcs). present sources target_srcs \<noteq> [])
          = (\<lambda>(name, target_srcs). \<exists>s\<in>fst ` set target_srcs. s \<in> fst ` set sources)"
    by (simp add: present_nonempty fun_eq_iff)
  show ?thesis
    unfolding composed_def eq by (simp add: present_def)
qed

lemma bit_length_numeral: "bit_length (numeral k) = Suc (bit_length (numeral k div 2))"
  by (subst bit_length.simps) simp

lemma bit_length_0: "bit_length 0 = 0"
  by (simp add: bit_length.simps)

lemma bit_length_Suc_0: "bit_length (Suc 0) = Suc 0"
  by (subst bit_length.simps) (simp add: bit_length_0)

lemma bit_length_example: "bit_length 9007199254740993 = 54"
  by (simp add: bit_length_numeral bit_length_0 bit_length_Suc_0)

lemma py_float_rounds: "py_float (YInt 9007199254740993) = Inr 9007199254740992"
  by (simp add: round_to_double_def bit_length_example Let_def bit_length_numeral bit_length_0 bit_length_Suc_0)

lemma bit_length_le: "n < 2 ^ k \<Longrightarrow> bit_length n \<le> k"
proof (induction k arbitrary: n)
  case 0
  then show ?case by (simp add: bit_length.simps)
next
  case (Suc k)
  show ?case
  proof (cases "n = 0")
    case True
    then show ?thesis by (simp add: bit_length.simps)
  next
    case False
    from Suc.prems have "n div 2 < 2 ^ k" by simp
    from Suc.IH[OF this] False show ?thesis
      by (subst bit_length.simps) simp
  qed
qed

lemma bit_length_gt: "2 ^ k \<le> n \<Longrightarrow> k < bit_length n"
proof (induction k arbitrary: n)
  case 0
  then show ?case by (subst bit_length.simps) simp
next
  case (Suc k)
  have "0 < (2::nat) ^ Suc k" by simp
  with Suc.prems have "n \<noteq> 0" by linarith
  moreover from Suc.prems have "2 ^ k \<le> n div 2" by simp
  ultimately have "n \<noteq> 0" and "2 ^ k \<le> n div 2" by blast+
  with Suc.IH[of "n div 2"] show ?case
    by (subst bit_length.simps) simp
qed

lemma round_to_double_ge:
  assumes "2 ^ 1024 \<le> n"
  shows "2 ^ 1024 \<le> round_to_double n"
proof -
  define bl where "bl = bit_length n"
  define e where "e = bl - 53"
  from bit_length_gt[OF assms] have big: "1024 < bl" by (simp add: bl_def)
  have "\<not> n < 2 ^ (bl - 1)"
  proof
    assume "n < 2 ^ (bl - 1)"
    from bit_length_le[OF this] big show False by (simp add: bl_def)
  qed
  then have low: "2 ^ (bl - 1) \<le> n" by simp
  have split: "bl - 1 = 52 + e" using big by (simp add: e_def)
  have "(2::nat) ^ 52 * 2 ^ e \<le> n"
    using low unfolding split power_add .
  then have "2 ^ 52 \<le> n div 2 ^ e"
    by (simp add: less_eq_div_iff_mult_less_eq)
  then have "2 ^ 52 * 2 ^ e \<le> n div 2 ^ e * 2 ^ e"
    by (rule mult_le_mono1)
  then have q: "(2::nat) ^ (bl - 1) \<le> n div 2 ^ e * 2 ^ e"
    unfolding split power_add .
  have "(2::nat) ^ 1024 \<le> 2 ^ (bl - 1)"
    using big by (intro power_increasing) simp_all
  from this q have ge: "(2::nat) ^ 1024 \<le> n div 2 ^ e * 2 ^ e" by (rule order_trans)
  let ?c = "2 ^ (e - 1) < n mod 2 ^ e \<or> (n mod 2 ^ e = 2 ^ (e - 1) \<and> odd (n div 2 ^ e))"
  have "\<not> bl \<le> 53" using big by simp
  then have eq: "round_to_double n
      = (if ?c then (n div 2 ^ e + 1) * 2 ^ e else n div 2 ^ e * 2 ^ e)"
    by (simp add: round_to_double_def bl_def[symmetric] e_def[symmetric] Let_def)
  have "n div 2 ^ e * 2 ^ e \<le> (n div 2 ^ e + 1) * 2 ^ e" by simp
  with ge have up: "(2::nat) ^ 1024 \<le> (n div 2 ^ e + 1) * 2 ^ e" by (rule order_trans)
  show ?thesis
  proof (cases ?c)
    case True
    then have "round_to_double n = (n div 2 ^ e + 1) * 2 ^ e" by (simp only: eq if_True)
    with up show ?thesis by (simp only:)
  next
    case False
    then have "round_to_double n = n div 2 ^ e * 2 ^ e" by (simp only: eq if_False)
    with ge show ?thesis by (simp only:)
  qed
qed

lemma py_float_overflows:
  assumes "2 ^ 1024 \<le> \<bar>i\<bar>"
  shows "py_float (YInt i) = Inl OverflowError"
proof -
  from assms have "2 ^ 1024 \<le> nat \<bar>i\<bar>" by (simp add: le_nat_iff)
  then have "2 ^ 1024 \<le> round_to_double (nat \<bar>i\<bar>)" by (rule round_to_double_ge)
  then have "1024 < bit_length (round_to_double (nat \<bar>i\<bar>))" by (rule bit_length_gt)
  then show ?thesis by (simp add: Let_def)
qed

lemma py_float_YInt_exact:
  assumes "\<bar>i\<bar> < 2 ^ 53"
  shows "py_float (YInt i) = Inr (real_of_int i)"
proof -
  from assms have n: "nat \<bar>i\<bar> < 2 ^ 53" by (simp add: nat_less_iff)
  then have "bit_length (nat \<bar>i\<bar>) \<le> 53" by (rule bit_length_le)
  then have r: "round_to_double (nat \<bar>i\<bar>) = nat \<bar>i\<bar>"
    and b: "\<not> 1024 < bit_length (nat \<bar>i\<bar>)"
    by (simp_all add: round_to_double_def)
  show ?thesis by (simp add: r b Let_def)
qed

lemma converts_gain:
  "converts K items \<Longrightarrow> (s, g) \<in> set items \<Longrightarrow> s \<in> K \<Longrightarrow> py_float g = Inr (gain_of g)"
  by (cases "py_float g") (auto simp: converts_def gain_of_def)

lemma add_target_sources_eq:
  "add_target_sources target_srcs sources acc
     = (if converts (fst ` set sources) target_srcs
        then Inr (apply_target target_srcs sources acc) else Inl OverflowError)"
proof (induction target_srcs arbitrary: sources acc)
  case Nil
  then show ?case by (simp add: converts_def)
next
  case (Cons p rest)
  obtain source gain where p: "p = (source, gain)" by (cases p)
  have c: "converts K ((source, gain) # rest)
             = ((source \<in> K \<longrightarrow> \<not> isl (py_float gain)) \<and> converts K rest)" for K
    by (simp add: converts_def)
  show ?case
  proof (cases "source \<in> fst ` set sources")
    case False
    then show ?thesis by (simp add: p c Cons.IH)
  next
    case True
    show ?thesis
    proof (cases "py_float gain")
      case (Inl e)
      then have "e = OverflowError" by (rule py_float_Inl)
      with Inl True show ?thesis by (simp add: p c)
    next
      case (Inr g)
      then have "gain_of gain = g" by (simp add: gain_of_def)
      with Inr True show ?thesis
        by (simp add: p c Cons.IH AList.dom_map_entry)
    qed
  qed
qed

text \<open>Every conversion that \<^verbatim>\<open>create_targets\<close> runs on the sources \<open>K\<close> returns.\<close>

lemma add_targets_eq:
  "add_targets spec sources targets
     = (if \<forall>(name, target_srcs)\<in>set spec. converts (fst ` set sources) target_srcs
        then Inr (apply_targets spec sources targets) else Inl OverflowError)"
proof (induction spec arbitrary: sources targets)
  case Nil
  then show ?case by simp
next
  case (Cons p rest)
  obtain name target_srcs where p: "p = (name, target_srcs)" by (cases p)
  obtain sources' refs where a: "apply_target target_srcs sources [] = (sources', refs)"
    by (cases "apply_target target_srcs sources []")
  have keys: "fst ` set sources' = fst ` set sources"
    using apply_target_keys[of target_srcs sources "[]"] a
    by (metis fst_conv list.set_map)
  show ?case
    by (cases "converts (fst ` set sources) target_srcs")
       (simp_all add: p add_target_sources_eq a Cons.IH keys)
qed

lemma create_targets_eq:
  "create_targets self track
     = (if \<forall>(name, target_srcs)\<in>set (setup_targets (db_setup self)).
              converts (fst ` set (trk_sources track)) target_srcs
        then Inr (track\<lparr>trk_sources :=
                     fst (apply_targets (setup_targets (db_setup self)) (trk_sources track) [])\<rparr>,
                  snd (apply_targets (setup_targets (db_setup self)) (trk_sources track) []))
        else Inl OverflowError)"
  by (simp add: create_targets_def add_targets_eq split: prod.splits)

lemma create_targets_InrD:
  assumes "create_targets self track = Inr (track', targets)"
  shows "\<forall>(name, target_srcs)\<in>set (setup_targets (db_setup self)).
           converts (fst ` set (trk_sources track)) target_srcs"
    and "trk_sources track'
           = fst (apply_targets (setup_targets (db_setup self)) (trk_sources track) [])"
    and "targets = snd (apply_targets (setup_targets (db_setup self)) (trk_sources track) [])"
  using assms unfolding create_targets_eq by (auto split: if_splits)

lemma apply_targets_last_gain:
  assumes "spec = pre @ (name, target_srcs) # post"
    and "distinct (map fst target_srcs)"
    and "(s, g) \<in> set target_srcs"
    and "\<forall>(name', target_srcs') \<in> set post. s \<notin> fst ` set target_srcs'"
    and "map_of sources s = Some v"
  shows "map_of (fst (apply_targets spec sources targets)) s = Some (v\<lparr>src_gain := gain_of g\<rparr>)"
proof -
  have "s \<notin> fst ` set (concat (map snd post))"
    using assms(4) by (auto simp: case_prod_unfold)
  then have none: "map_of (rev (concat (map snd post))) s = None"
    by (simp add: map_of_eq_None_iff)
  have some: "map_of (rev target_srcs) s = Some g"
    using assms(2,3) by (simp add: distinct_map_of_rev_eq)
  have "regain (concat (map snd spec)) s v = v\<lparr>src_gain := gain_of g\<rparr>"
    by (simp add: assms(1) regain_def map_of_append map_add_def none some)
  then show ?thesis
    by (simp add: apply_targets_store assms(5))
qed

lemma composed_entry:
  assumes "distinct (map fst spec)"
    and "(name, target_srcs) \<in> set spec"
    and "present sources target_srcs \<noteq> []"
  shows "map_of (composed sources spec) name
           = Some \<lparr>tgt_name = name, tgt_sources = present sources target_srcs\<rparr>"
proof (rule map_of_is_SomeI)
  have "map fst (composed sources spec)
          = map fst (filter (\<lambda>(name, target_srcs). present sources target_srcs \<noteq> []) spec)"
    by (simp add: composed_def case_prod_unfold)
  then show "distinct (map fst (composed sources spec))"
    using assms(1) by (simp add: distinct_map_filter)
  show "(name, \<lparr>tgt_name = name, tgt_sources = present sources target_srcs\<rparr>)
          \<in> set (composed sources spec)"
    using assms(2,3) by (force simp: composed_def)
qed

text \<open>
  Claim C6, as amended: composing one target walks its (source name, gain) pairs in
  declared order; the target's source list is the declared names that the track has, in
  that order, and each such source then carries \<^verbatim>\<open>float\<close> of its declared gain. When
  \<^verbatim>\<open>create_targets\<close> returns, the targets come in the order of the target specification,
  and a source holds \<^verbatim>\<open>float\<close> of the gain that a target declares for it provided that
  no later target names the source: for a target \<open>{a: 0.5, b: 1.0}\<close> with both sources
  present and named by no later target, the gains are 0.5 and 1.0 and the source list is
  \<open>[a, b]\<close>. \<^verbatim>\<open>create_targets\<close> returns when \<^verbatim>\<open>float\<close> returns for every declared gain
  of a source of the track. The claim as stated fails where a later target names
  \<open>a\<close> again with another gain.
\<close>

theorem create_targets_gain_propagation:
  "(add_target_sources target_srcs sources [] = Inr (sources', target_sources) \<longrightarrow>
      target_sources = filter (\<lambda>s. s \<in> fst ` set sources) (map fst target_srcs)
    \<and> (distinct (map fst target_srcs) \<and> (s, g) \<in> set target_srcs \<and> map_of sources s = Some v
        \<longrightarrow> (\<exists>r. py_float g = Inr r \<and> map_of sources' s = Some (v\<lparr>src_gain := r\<rparr>))))
   \<and> (create_targets self track = Inr (track', targets) \<longrightarrow>
      (distinct (map fst (setup_targets (db_setup self)))
        \<longrightarrow> targets
              = map (\<lambda>(name, target_srcs).
                       (name, \<lparr>tgt_name = name,
                               tgt_sources = filter (\<lambda>s. s \<in> fst ` set (trk_sources track))
                                               (map fst target_srcs)\<rparr>))
                  (filter (\<lambda>(name, target_srcs).
                             \<exists>s\<in>fst ` set target_srcs. s \<in> fst ` set (trk_sources track))
                     (setup_targets (db_setup self))))
    \<and> (setup_targets (db_setup self) = pre @ (name, target_srcs) # post
        \<and> distinct (map fst target_srcs) \<and> (s, g) \<in> set target_srcs
        \<and> map_of (trk_sources track) s = Some v
        \<and> (\<forall>(name', target_srcs')\<in>set post. s \<notin> fst ` set target_srcs')
        \<longrightarrow> (\<exists>r. py_float g = Inr r
               \<and> map_of (trk_sources track') s = Some (v\<lparr>src_gain := r\<rparr>)))
    \<and> (setup_targets (db_setup self) = pre @ (name, [(a, YFloat 0.5), (b, YFloat 1.0)]) # post
        \<and> a \<noteq> b
        \<and> map_of (trk_sources track) a = Some va \<and> map_of (trk_sources track) b = Some vb
        \<and> (\<forall>(name', target_srcs')\<in>set post.
              a \<notin> fst ` set target_srcs' \<and> b \<notin> fst ` set target_srcs')
        \<longrightarrow> map_of (trk_sources track') a = Some (va\<lparr>src_gain := 0.5\<rparr>)
          \<and> map_of (trk_sources track') b = Some (vb\<lparr>src_gain := 1.0\<rparr>)
          \<and> (distinct (map fst (setup_targets (db_setup self)))
               \<longrightarrow> map_of targets name = Some \<lparr>tgt_name = name, tgt_sources = [a, b]\<rparr>)))
   \<and> ((\<forall>(name, target_srcs)\<in>set (setup_targets (db_setup self)).
          \<forall>(s, g)\<in>set target_srcs.
            s \<in> fst ` set (trk_sources track) \<longrightarrow> (\<exists>r. py_float g = Inr r))
      \<longrightarrow> (\<exists>track' targets. create_targets self track = Inr (track', targets)))"
proof (intro conjI impI)
  assume inner: "add_target_sources target_srcs sources [] = Inr (sources', target_sources)"
  then have conv: "converts (fst ` set sources) target_srcs"
    and res: "apply_target target_srcs sources [] = (sources', target_sources)"
    unfolding add_target_sources_eq by (auto split: if_splits)
  show "target_sources = filter (\<lambda>s. s \<in> fst ` set sources) (map fst target_srcs)"
    using apply_target_refs[of target_srcs sources "[]"] res by (simp add: present_def)
  {
    assume h: "distinct (map fst target_srcs) \<and> (s, g) \<in> set target_srcs
                \<and> map_of sources s = Some v"
    then have "map_of (rev target_srcs) s = Some g"
      by (simp add: distinct_map_of_rev_eq)
    with h have "map_of sources' s = Some (v\<lparr>src_gain := gain_of g\<rparr>)"
      using apply_target_store[of target_srcs sources "[]" s] res by (simp add: regain_def)
    moreover from h have "s \<in> fst ` set sources"
      by (auto dest: map_of_SomeD intro: rev_image_eqI)
    with conv h have "py_float g = Inr (gain_of g)"
      by (blast intro: converts_gain)
    ultimately show "\<exists>r. py_float g = Inr r \<and> map_of sources' s = Some (v\<lparr>src_gain := r\<rparr>)"
      by blast
  }
next
  assume ct: "create_targets self track = Inr (track', targets)"
  note d = create_targets_InrD[OF ct]
  {
    assume dist: "distinct (map fst (setup_targets (db_setup self)))"
    then have "snd (apply_targets (setup_targets (db_setup self)) (trk_sources track) [])
               = composed (trk_sources track) (setup_targets (db_setup self))"
      using apply_targets_targets[of "[]" "setup_targets (db_setup self)" "trk_sources track"]
      by simp
    then show "targets
              = map (\<lambda>(name, target_srcs).
                       (name, \<lparr>tgt_name = name,
                               tgt_sources = filter (\<lambda>s. s \<in> fst ` set (trk_sources track))
                                               (map fst target_srcs)\<rparr>))
                  (filter (\<lambda>(name, target_srcs).
                             \<exists>s\<in>fst ` set target_srcs. s \<in> fst ` set (trk_sources track))
                     (setup_targets (db_setup self)))"
      by (simp only: d(3) composed_alt)
  }
  {
    assume h: "setup_targets (db_setup self) = pre @ (name, target_srcs) # post
        \<and> distinct (map fst target_srcs) \<and> (s, g) \<in> set target_srcs
        \<and> map_of (trk_sources track) s = Some v
        \<and> (\<forall>(name', target_srcs')\<in>set post. s \<notin> fst ` set target_srcs')"
    then have 1: "setup_targets (db_setup self) = pre @ (name, target_srcs) # post"
      and 2: "distinct (map fst target_srcs)" and 3: "(s, g) \<in> set target_srcs"
      and 4: "\<forall>(name', target_srcs')\<in>set post. s \<notin> fst ` set target_srcs'"
      and 5: "map_of (trk_sources track) s = Some v"
      by blast+
    have m: "map_of (trk_sources track') s = Some (v\<lparr>src_gain := gain_of g\<rparr>)"
      unfolding d(2) by (rule apply_targets_last_gain[OF 1 2 3 4 5])
    have "(name, target_srcs) \<in> set (setup_targets (db_setup self))"
      by (simp add: 1)
    with d(1) have "converts (fst ` set (trk_sources track)) target_srcs" by blast
    moreover from 5 have "s \<in> fst ` set (trk_sources track)"
      by (auto dest: map_of_SomeD intro: rev_image_eqI)
    ultimately have "py_float g = Inr (gain_of g)"
      using 3 by (blast intro: converts_gain)
    with m show "\<exists>r. py_float g = Inr r
               \<and> map_of (trk_sources track') s = Some (v\<lparr>src_gain := r\<rparr>)"
      by blast
  }
  {
    assume h: "setup_targets (db_setup self) = pre @ (name, [(a, YFloat 0.5), (b, YFloat 1.0)]) # post
        \<and> a \<noteq> b
        \<and> map_of (trk_sources track) a = Some va \<and> map_of (trk_sources track) b = Some vb
        \<and> (\<forall>(name', target_srcs')\<in>set post.
              a \<notin> fst ` set target_srcs' \<and> b \<notin> fst ` set target_srcs')"
    then have 1: "setup_targets (db_setup self)
                    = pre @ (name, [(a, YFloat 0.5), (b, YFloat 1.0)]) # post"
      and ab: "a \<noteq> b"
      and va: "map_of (trk_sources track) a = Some va"
      and vb: "map_of (trk_sources track) b = Some vb"
      by blast+
    from h have pa: "\<forall>(name', target_srcs')\<in>set post. a \<notin> fst ` set target_srcs'"
      by auto
    from h have pb: "\<forall>(name', target_srcs')\<in>set post. b \<notin> fst ` set target_srcs'"
      by auto
    have dist: "distinct (map fst [(a, YFloat 0.5), (b, YFloat 1.0)])"
      using ab by simp
    have "map_of (trk_sources track') a = Some (va\<lparr>src_gain := gain_of (YFloat 0.5)\<rparr>)"
      unfolding d(2) by (rule apply_targets_last_gain[OF 1 dist _ pa va]) simp
    then show "map_of (trk_sources track') a = Some (va\<lparr>src_gain := 0.5\<rparr>)"
      by (simp add: gain_of_def)
    have "map_of (trk_sources track') b = Some (vb\<lparr>src_gain := gain_of (YFloat 1.0)\<rparr>)"
      unfolding d(2) by (rule apply_targets_last_gain[OF 1 dist _ pb vb]) simp
    then show "map_of (trk_sources track') b = Some (vb\<lparr>src_gain := 1.0\<rparr>)"
      by (simp add: gain_of_def)
    {
      assume dn: "distinct (map fst (setup_targets (db_setup self)))"
      from va vb have "a \<in> fst ` set (trk_sources track)" "b \<in> fst ` set (trk_sources track)"
        by (auto dest: map_of_SomeD intro: rev_image_eqI)
      then have pr: "present (trk_sources track) [(a, YFloat 0.5), (b, YFloat 1.0)] = [a, b]"
        by (simp add: present_def)
      have mem: "(name, [(a, YFloat 0.5), (b, YFloat 1.0)]) \<in> set (setup_targets (db_setup self))"
        by (simp add: 1)
      have "targets = composed (trk_sources track) (setup_targets (db_setup self))"
        using apply_targets_targets[of "[]" "setup_targets (db_setup self)" "trk_sources track"] dn
        by (simp add: d(3))
      then show "map_of targets name = Some \<lparr>tgt_name = name, tgt_sources = [a, b]\<rparr>"
        using composed_entry[OF dn mem, of "trk_sources track"] pr by simp
    }
  }
next
  assume h: "\<forall>(name, target_srcs)\<in>set (setup_targets (db_setup self)).
          \<forall>(s, g)\<in>set target_srcs.
            s \<in> fst ` set (trk_sources track) \<longrightarrow> (\<exists>r. py_float g = Inr r)"
  have "\<forall>(name, target_srcs)\<in>set (setup_targets (db_setup self)).
          converts (fst ` set (trk_sources track)) target_srcs"
    unfolding converts_def using h by fastforce
  then show "\<exists>track' targets. create_targets self track = Inr (track', targets)"
    unfolding create_targets_eq by simp
qed

theorem create_targets_gain_propagation_witness:
  "map_of (trk_sources (fst (projr (create_targets (example_db True)
       ((example_track ''train'' ''A'')\<lparr>trk_sources := example_sources\<rparr>))))) ''drums''
     = Some ((example_source ''drums'')\<lparr>src_gain := 0.25\<rparr>)
   \<and> map fst (snd (projr (create_targets (example_db True)
                      ((example_track ''train'' ''A'')\<lparr>trk_sources := example_sources\<rparr>))))
     = [''drums'', ''accompaniment'', ''bass'']"
proof -
  let ?tr = "(example_track ''train'' ''A'')\<lparr>trk_sources := example_sources\<rparr>"
  let ?ct = "create_targets (example_db True) ?tr"
  have "isl ?ct = False" by code_simp
  then have h0: "?ct = Inr (fst (projr ?ct), snd (projr ?ct))"
    by (cases ?ct) simp_all
  have h1: "setup_targets (db_setup (example_db True))
              = [(''drums'', [(''drums'', YInt 1)])]
                @ (''accompaniment'', [(''bass'', YFloat 0.5), (''drums'', YFloat 0.25)])
                # [(''bass'', [(''bass'', YInt 1)])]"
    by (simp add: example_db_def init_attributes_def example_setup_def)
  have h2: "distinct (map fst [(''bass'', YFloat 0.5), (''drums'', YFloat 0.25)])"
    by simp
  have h3: "(''drums'', YFloat 0.25) \<in> set [(''bass'', YFloat 0.5), (''drums'', YFloat 0.25)]"
    by simp
  have h4: "\<forall>(name', target_srcs') \<in> set [(''bass'', [(''bass'', YInt 1)])].
              ''drums'' \<notin> fst ` set target_srcs'"
    by simp
  have h5: "map_of (trk_sources ?tr) ''drums'' = Some (example_source ''drums'')"
    by (simp add: example_sources_def)
  have "\<exists>r. py_float (YFloat 0.25) = Inr r
          \<and> map_of (trk_sources (fst (projr ?ct))) ''drums''
              = Some ((example_source ''drums'')\<lparr>src_gain := r\<rparr>)"
    by (rule create_targets_gain_propagation
         [where self = "example_db True" and track = ?tr
            and track' = "fst (projr ?ct)" and targets = "snd (projr ?ct)"
            and pre = "[(''drums'', [(''drums'', YInt 1)])]" and name = "''accompaniment''"
            and target_srcs = "[(''bass'', YFloat 0.5), (''drums'', YFloat 0.25)]"
            and post = "[(''bass'', [(''bass'', YInt 1)])]"
            and s = "''drums''" and g = "YFloat 0.25" and v = "example_source ''drums''",
          THEN conjunct2, THEN conjunct1, THEN mp, OF h0, THEN conjunct2, THEN conjunct1, THEN mp])
       (intro conjI h1 h2 h3 h4 h5)
  then have g: "map_of (trk_sources (fst (projr ?ct))) ''drums''
              = Some ((example_source ''drums'')\<lparr>src_gain := 0.25\<rparr>)"
    by auto
  have n: "map fst (snd (projr ?ct)) = [''drums'', ''accompaniment'', ''bass'']"
    by code_simp
  show ?thesis by (intro conjI g n)
qed

theorem create_targets_gain_overwritten_counterexample:
  "\<not> isl (create_targets overwrite_db overwrite_track)
   \<and> setup_targets (db_setup overwrite_db)
       = [(''mix'', [(''sourceA'', YFloat 0.5), (''sourceB'', YFloat 1.0)]),
          (''solo'', [(''sourceA'', YFloat 2)])]
   \<and> map fst (trk_sources overwrite_track) = [''sourceA'', ''sourceB'']
   \<and> map_option tgt_sources (map_of (snd (projr (create_targets overwrite_db overwrite_track)))
        ''mix'') = Some [''sourceA'', ''sourceB'']
   \<and> map_option src_gain
        (map_of (trk_sources (fst (projr (create_targets overwrite_db overwrite_track))))
           ''sourceA'') = Some 2
   \<and> map_option src_gain
        (map_of (trk_sources (fst (projr (create_targets overwrite_db overwrite_track))))
           ''sourceA'') \<noteq> Some 0.5"
  by (simp add: overwrite_db_def overwrite_track_def example_db_def init_attributes_def
        example_setup_def example_track_def example_source_def create_targets_def)

text \<open>
  Claim C7: a Source has the single field \<open>src_gain\<close>. When \<^verbatim>\<open>create_targets\<close> has
  composed all targets of a track, a source of the track holds the gain declared by the
  last target of the specification that names it, whatever the targets before declared:
  the float that \<^verbatim>\<open>float\<close> returns for it, which is the declared value itself for a
  float and for an integer of magnitude below \<open>2 ^ 53\<close>. The Source objects themselves
  stay the same.
\<close>

theorem create_targets_last_gain_wins:
  assumes "create_targets self track = Inr (track', targets)"
    and "setup_targets (db_setup self) = pre @ (name, target_srcs) # post"
    and "distinct (map fst target_srcs)"
    and "(s, g) \<in> set target_srcs"
    and "\<forall>(name', target_srcs') \<in> set post. s \<notin> fst ` set target_srcs'"
    and "map_of (trk_sources track) s = Some v"
  shows "(\<exists>r. py_float g = Inr r
            \<and> map_of (trk_sources track') s = Some (v\<lparr>src_gain := r\<rparr>)
            \<and> (\<forall>x. g = YFloat x \<longrightarrow> r = x)
            \<and> (\<forall>i. g = YInt i \<and> \<bar>i\<bar> < 2 ^ 53 \<longrightarrow> r = real_of_int i))
         \<and> map fst (trk_sources track') = map fst (trk_sources track)"
proof -
  note d = create_targets_InrD[OF assms(1)]
  have m: "map_of (trk_sources track') s = Some (v\<lparr>src_gain := gain_of g\<rparr>)"
    unfolding d(2) by (rule apply_targets_last_gain[OF assms(2-6)])
  have "(name, target_srcs) \<in> set (setup_targets (db_setup self))"
    by (simp add: assms(2))
  with d(1) have "converts (fst ` set (trk_sources track)) target_srcs" by blast
  moreover from assms(6) have "s \<in> fst ` set (trk_sources track)"
    by (auto dest: map_of_SomeD intro: rev_image_eqI)
  ultimately have f: "py_float g = Inr (gain_of g)"
    using assms(4) by (blast intro: converts_gain)
  have x: "\<forall>x. g = YFloat x \<longrightarrow> gain_of g = x"
    by (simp add: gain_of_def)
  have i: "\<forall>i. g = YInt i \<and> \<bar>i\<bar> < 2 ^ 53 \<longrightarrow> gain_of g = real_of_int i"
  proof (intro allI impI)
    fix i assume "g = YInt i \<and> \<bar>i\<bar> < 2 ^ 53"
    then show "gain_of g = real_of_int i"
      unfolding gain_of_def using py_float_YInt_exact[of i] by (simp del: py_float.simps)
  qed
  have k: "map fst (trk_sources track') = map fst (trk_sources track)"
    unfolding d(2) by (rule apply_targets_keys)
  from f m x i k show ?thesis by blast
qed

theorem create_targets_last_gain_wins_witness:
  "map_of (trk_sources (fst (projr (create_targets (example_db True)
       ((example_track ''train'' ''A'')\<lparr>trk_sources := example_sources\<rparr>))))) ''bass''
     = Some ((example_source ''bass'')\<lparr>src_gain := 1\<rparr>)"
proof -
  let ?tr = "(example_track ''train'' ''A'')\<lparr>trk_sources := example_sources\<rparr>"
  let ?ct = "create_targets (example_db True) ?tr"
  have "isl ?ct = False" by code_simp
  then have h0: "?ct = Inr (fst (projr ?ct), snd (projr ?ct))"
    by (cases ?ct) simp_all
  have h1: "setup_targets (db_setup (example_db True))
              = [(''drums'', [(''drums'', YInt 1)]),
                 (''accompaniment'', [(''bass'', YFloat 0.5), (''drums'', YFloat 0.25)])]
                @ (''bass'', [(''bass'', YInt 1)]) # []"
    by (simp add: example_db_def init_attributes_def example_setup_def)
  have h2: "distinct (map fst [(''bass'', YInt 1)])"
    by simp
  have h3: "(''bass'', YInt 1) \<in> set [(''bass'', YInt 1)]"
    by simp
  have h4: "\<forall>(name', target_srcs') \<in> set []. ''bass'' \<notin> fst ` set target_srcs'"
    by simp
  have h5: "map_of (trk_sources ?tr) ''bass'' = Some (example_source ''bass'')"
    by (simp add: example_sources_def)
  from create_targets_last_gain_wins [OF h0 h1 h2 h3 h4 h5]
  obtain r where r: "map_of (trk_sources (fst (projr ?ct))) ''bass''
                       = Some ((example_source ''bass'')\<lparr>src_gain := r\<rparr>)"
    and e: "\<forall>i. YInt 1 = YInt i \<and> \<bar>i\<bar> < 2 ^ 53 \<longrightarrow> r = real_of_int i"
    by blast
  from e have "r = 1" by simp
  with r show ?thesis by simp
qed

subsection \<open>Writing estimates\<close>

lemma join_assoc: "join (join a p) q = join a (p @ q)"
  by (simp add: join_def)

lemma write_estimates_dirs:
  "disk_dirs (write_estimates dir r est d) = disk_dirs d"
  by (induction est arbitrary: d) (auto simp: write_audio_def)

lemma write_estimates_files:
  "disk_files (write_estimates dir r est d)
     = disk_files d ++ map_of (rev (map (\<lambda>(target, estimate). (join dir [target @ ''.wav''], (estimate, r))) est))"
proof (induction est arbitrary: d)
  case Nil
  then show ?case by simp
next
  case (Cons p rest)
  obtain target estimate where p: "p = (target, estimate)" by (cases p)
  show ?case
    by (simp add: p Cons.IH write_audio_def map_of_append fun_eq_iff map_add_def split: option.splits)
qed

lemma write_estimates_idem:
  "write_estimates dir r est (write_estimates dir r est d) = write_estimates dir r est d"
proof -
  have "disk_files (write_estimates dir r est (write_estimates dir r est d))
          = disk_files (write_estimates dir r est d)"
    by (simp add: write_estimates_files fun_eq_iff map_add_def split: option.splits)
  moreover have "disk_dirs (write_estimates dir r est (write_estimates dir r est d))
          = disk_dirs (write_estimates dir r est d)"
    by (simp add: write_estimates_dirs)
  moreover have "\<And>x. disk.more (write_estimates dir r est x) = disk.more x"
    by (induction est) (auto simp: write_audio_def)
  ultimately show ?thesis by (simp add: disk.equality)
qed

lemma write_estimates_exists:
  "path_exists d p \<Longrightarrow> path_exists (write_estimates dir r est d) p"
  by (auto simp: path_exists_def write_estimates_dirs write_estimates_files)

lemma join_step_plain:
  "path \<noteq> [] \<Longrightarrow> last path \<noteq> CHR ''/'' \<Longrightarrow> (b = [] \<or> hd b \<noteq> CHR ''/'') \<Longrightarrow>
     join_step path b = path @ ''/'' @ b"
  by (auto simp: join_step_def)

lemma join_plain:
  assumes "estimates_dir \<noteq> []" "last estimates_dir \<noteq> CHR ''/''"
    and "sub \<noteq> []" "hd sub \<noteq> CHR ''/''" "last sub \<noteq> CHR ''/''"
    and "name \<noteq> []" "hd name \<noteq> CHR ''/''" "last name \<noteq> CHR ''/''"
    and "target = [] \<or> hd target \<noteq> CHR ''/''"
  shows "join estimates_dir [sub, name, target @ ''.wav'']
           = estimates_dir @ ''/'' @ sub @ ''/'' @ name @ ''/'' @ target @ ''.wav''"
proof -
  have 1: "join_step estimates_dir sub = estimates_dir @ ''/'' @ sub"
    using assms by (simp add: join_step_plain)
  have 2: "join_step (estimates_dir @ ''/'' @ sub) name = estimates_dir @ ''/'' @ sub @ ''/'' @ name"
    using assms by (simp add: join_step_plain)
  have 3: "join_step (estimates_dir @ ''/'' @ sub @ ''/'' @ name) (target @ ''.wav'')
             = estimates_dir @ ''/'' @ sub @ ''/'' @ name @ ''/'' @ target @ ''.wav''"
    using assms by (cases target) (simp_all add: join_step_plain)
  show ?thesis unfolding join_def foldl_Cons foldl_Nil 1 2 3 by (rule refl)
qed

lemma save_estimates_ancestor_file:
  assumes "\<not> path_exists d (join estimates_dir [trk_subset track, trk_name track])"
    and "a \<in> set (parents (join estimates_dir [trk_subset track, trk_name track]))"
    and "a \<in> dom (disk_files d)"
  shows "save_estimates rate user_estimates track estimates_dir write_stems d
           = Inl NotADirectoryError"
  using assms by (auto simp: save_estimates_def makedirs_def Let_def)

text \<open>
  Claim C9: without the stem-container mode, and on a disk where no ancestor of the
  track's directory is a regular file, \<^verbatim>\<open>save_estimates\<close> returns without error;
  the directory \<^verbatim>\<open>join(estimates_dir, subset, name)\<close> exists afterwards, created together
  with its ancestors when no such path existed; the files written are exactly the
  entries of the mapping, each at \<^verbatim>\<open>join(estimates_dir, subset, name, target + '.wav')\<close>
  with the track's rate; and a second call with the same arguments returns without error
  and leaves the directories and files as the first call left them. For a root that
  does not end with a separator and names that neither start nor end with one, that path
  is literally \<open>estimates_dir/subset/name/target.wav\<close>.
\<close>

theorem save_estimates_layout:
  assumes "\<not> write_stems"
    and "\<forall>a\<in>set (parents (join estimates_dir [trk_subset track, trk_name track])).
           a \<notin> dom (disk_files d)"
  shows "(\<exists>d'. save_estimates rate user_estimates track estimates_dir write_stems d = Inr d'
    \<and> path_exists d' (join estimates_dir [trk_subset track, trk_name track])
    \<and> (\<not> path_exists d (join estimates_dir [trk_subset track, trk_name track]) \<longrightarrow>
         disk_dirs d' = disk_dirs d
            \<union> set (parents (join estimates_dir [trk_subset track, trk_name track]))
            \<union> {join estimates_dir [trk_subset track, trk_name track]})
    \<and> (path_exists d (join estimates_dir [trk_subset track, trk_name track]) \<longrightarrow>
         disk_dirs d' = disk_dirs d)
    \<and> disk_files d' = disk_files d ++ map_of (rev (map (\<lambda>(target, estimate).
           (join estimates_dir [trk_subset track, trk_name track, target @ ''.wav''],
            (estimate, rate track))) user_estimates))
    \<and> save_estimates rate user_estimates track estimates_dir write_stems d' = Inr d')
   \<and> (estimates_dir \<noteq> [] \<and> last estimates_dir \<noteq> CHR ''/''
        \<and> trk_subset track \<noteq> [] \<and> hd (trk_subset track) \<noteq> CHR ''/''
        \<and> last (trk_subset track) \<noteq> CHR ''/''
        \<and> trk_name track \<noteq> [] \<and> hd (trk_name track) \<noteq> CHR ''/''
        \<and> last (trk_name track) \<noteq> CHR ''/''
        \<and> (target = [] \<or> hd target \<noteq> CHR ''/'')
      \<longrightarrow> join estimates_dir [trk_subset track, trk_name track, target @ ''.wav'']
            = estimates_dir @ ''/'' @ trk_subset track @ ''/'' @ trk_name track @ ''/''
                @ target @ ''.wav'')"
proof (rule conjI)
  let ?dir = "join estimates_dir [trk_subset track, trk_name track]"
  have paths: "\<And>target. join ?dir [target @ ''.wav'']
                 = join estimates_dir [trk_subset track, trk_name track, target @ ''.wav'']"
    by (simp add: join_def)
  show "\<exists>d'. save_estimates rate user_estimates track estimates_dir write_stems d = Inr d'
    \<and> path_exists d' (join estimates_dir [trk_subset track, trk_name track])
    \<and> (\<not> path_exists d (join estimates_dir [trk_subset track, trk_name track]) \<longrightarrow>
         disk_dirs d' = disk_dirs d
            \<union> set (parents (join estimates_dir [trk_subset track, trk_name track]))
            \<union> {join estimates_dir [trk_subset track, trk_name track]})
    \<and> (path_exists d (join estimates_dir [trk_subset track, trk_name track]) \<longrightarrow>
         disk_dirs d' = disk_dirs d)
    \<and> disk_files d' = disk_files d ++ map_of (rev (map (\<lambda>(target, estimate).
           (join estimates_dir [trk_subset track, trk_name track, target @ ''.wav''],
            (estimate, rate track))) user_estimates))
    \<and> save_estimates rate user_estimates track estimates_dir write_stems d' = Inr d'"
  proof (cases "path_exists d ?dir")
    case True
    let ?d' = "write_estimates ?dir (rate track) user_estimates d"
    have 1: "save_estimates rate user_estimates track estimates_dir write_stems d = Inr ?d'"
      using assms(1) True by (simp add: save_estimates_def Let_def)
    have 2: "path_exists ?d' ?dir" using True by (rule write_estimates_exists)
    have 3: "save_estimates rate user_estimates track estimates_dir write_stems ?d' = Inr ?d'"
      using assms(1) 2 by (simp add: save_estimates_def write_estimates_idem Let_def)
    show ?thesis
      using 1 2 3 True by (simp add: write_estimates_dirs write_estimates_files paths)
  next
    case False
    let ?d1 = "d\<lparr>disk_dirs := disk_dirs d \<union> set (parents ?dir) \<union> {?dir}\<rparr>"
    let ?d' = "write_estimates ?dir (rate track) user_estimates ?d1"
    have "makedirs ?dir d = Inr ?d1"
      using assms(2) False by (auto simp: makedirs_def)
    then have 1: "save_estimates rate user_estimates track estimates_dir write_stems d = Inr ?d'"
      using assms(1) False by (simp add: save_estimates_def Let_def)
    have "path_exists ?d1 ?dir" by (simp add: path_exists_def)
    then have 2: "path_exists ?d' ?dir" by (rule write_estimates_exists)
    have 3: "save_estimates rate user_estimates track estimates_dir write_stems ?d' = Inr ?d'"
      using assms(1) 2 by (simp add: save_estimates_def write_estimates_idem Let_def)
    show ?thesis
      using 1 2 3 False by (simp add: write_estimates_dirs write_estimates_files paths)
  qed
next
  show "estimates_dir \<noteq> [] \<and> last estimates_dir \<noteq> CHR ''/''
        \<and> trk_subset track \<noteq> [] \<and> hd (trk_subset track) \<noteq> CHR ''/''
        \<and> last (trk_subset track) \<noteq> CHR ''/''
        \<and> trk_name track \<noteq> [] \<and> hd (trk_name track) \<noteq> CHR ''/''
        \<and> last (trk_name track) \<noteq> CHR ''/''
        \<and> (target = [] \<or> hd target \<noteq> CHR ''/'')
      \<longrightarrow> join estimates_dir [trk_subset track, trk_name track, target @ ''.wav'']
            = estimates_dir @ ''/'' @ trk_subset track @ ''/'' @ trk_name track @ ''/''
                @ target @ ''.wav''"
    by (intro impI, elim conjE, rule join_plain)
qed

theorem save_estimates_layout_witness:
  "save_estimates (\<lambda>t. 44100) [(''vocals'', 7)] (example_track ''test'' ''Song A'') ''out'' False
       example_disk
     = Inr \<lparr>disk_dirs = {''out'', ''out/test'', ''out/test/Song A''},
            disk_files = [''out/test/Song A/vocals.wav'' \<mapsto> (7, 44100)]\<rparr>
   \<and> save_estimates (\<lambda>t. 44100) [(''vocals'', 7)] (example_track ''test'' ''Song A'') ''out'' False
       \<lparr>disk_dirs = {''out'', ''out/test'', ''out/test/Song A''},
        disk_files = [''out/test/Song A/vocals.wav'' \<mapsto> (7::nat, 44100)]\<rparr>
     = Inr \<lparr>disk_dirs = {''out'', ''out/test'', ''out/test/Song A''},
            disk_files = [''out/test/Song A/vocals.wav'' \<mapsto> (7, 44100)]\<rparr>"
proof -
  have h: "\<not> False" by simp
  have h2: "\<forall>a\<in>set (parents (join ''out'' [trk_subset (example_track ''test'' ''Song A''),
                                             trk_name (example_track ''test'' ''Song A'')])).
              a \<notin> dom (disk_files example_disk)"
    by (simp add: example_disk_def)
  have p: "parents ''out/test/Song A'' = [''out'', ''out/test'']" by code_simp
  have j: "join ''out'' [''test'', ''Song A''] = ''out/test/Song A''"
    by (simp add: join_def join_step_def)
  have w: "join ''out/test/Song A'' [''vocals.wav''] = ''out/test/Song A/vocals.wav''"
    by (simp add: join_def join_step_def)
  have f: "join ''out'' [''test'', ''Song A'', ''vocals.wav''] = ''out/test/Song A/vocals.wav''"
    by (simp add: join_def join_step_def)
  show ?thesis
    using save_estimates_layout [OF h h2, of "\<lambda>t. 44100" "[(''vocals'', 7::nat)]"]
    by (auto simp: save_estimates_def example_track_def example_disk_def j w f p path_exists_def
          makedirs_def write_audio_def Let_def)
qed

subsection \<open>The loops as one loop over the traversal\<close>

lemma for_each_cong:
  "(\<And>x. x \<in> set xs \<Longrightarrow> f x = g x) \<Longrightarrow> for_each f xs = for_each g xs"
  by (induction xs) (auto split: sum.splits)

lemma for_each_append:
  "for_each f (xs @ ys)
     = (case for_each f xs of
          Inl e \<Rightarrow> Inl e
        | Inr a \<Rightarrow> (case for_each f ys of Inl e \<Rightarrow> Inl e | Inr b \<Rightarrow> Inr (a @ b)))"
  by (induction xs) (auto split: sum.splits)

lemma for_each_concat:
  "for_each f (concat xss) = for_each (\<lambda>xs. for_each f xs) xss"
  by (induction xss) (auto simp: for_each_append split: sum.splits)

lemma for_each_map: "for_each f (map g xs) = for_each (\<lambda>x. f (g x)) xs"
  by (induction xs) (auto split: sum.splits)

lemma for_each_nil: "(\<And>x. x \<in> set xs \<Longrightarrow> f x = Inr []) \<Longrightarrow> for_each f xs = Inr []"
  by (induction xs) auto

lemma load_track_folder_jobs:
  "load_track_folder self fs sub track_name track_folder
     = for_each (build_job self fs) (variant_jobs fs sub track_name track_folder)"
  unfolding load_track_folder_def variant_jobs_def
  by (auto simp: for_each_concat for_each_map build_job_def intro!: for_each_cong)

lemma load_folders_jobs:
  "load_folders self fs split sub subset_folder folders
     = for_each (build_job self fs)
         (concat (map (\<lambda>track_name.
                         variant_jobs fs sub track_name
                           (join subset_folder [db_instrument self, track_name]))
                    (filter (\<lambda>track_name. \<not> skip_track self sub split track_name)
                       (sort folders))))"
  unfolding load_folders_def
  by (simp add: for_each_skip for_each_concat for_each_map load_track_folder_jobs)

lemma load_subset_jobs:
  "db_data_path self = Some data_path \<Longrightarrow>
   load_subset self fs split sub
     = for_each (build_job self fs) (subset_jobs self fs split data_path sub)"
  unfolding load_subset_def subset_jobs_def
  by (auto simp: Let_def load_folders_jobs for_each_concat for_each_map intro!: for_each_cong)

lemma load_mus_tracks_jobs:
  "db_data_path self = Some data_path \<Longrightarrow>
   \<not> (normalize_subsets subsets \<noteq> [''train''] \<and> split \<noteq> None) \<Longrightarrow>
   load_mus_tracks self fs subsets split
     = for_each (build_job self fs)
         (track_jobs self fs split data_path (normalize_subsets subsets))"
  unfolding load_mus_tracks_def track_jobs_def
  by (auto simp: Let_def load_subset_jobs for_each_concat for_each_map intro!: for_each_cong)

subsection \<open>Indexing without the per-file layout\<close>

lemma for_each_first_Inl: "xs \<noteq> [] \<Longrightarrow> (\<And>x. x \<in> set xs \<Longrightarrow> f x = Inl e) \<Longrightarrow> for_each f xs = Inl e"
  by (cases xs) auto

lemma load_subset_not_wav:
  "\<not> db_is_wav self \<Longrightarrow>
   load_subset self fs split sub = (if db_data_path self = None then Inl TypeError else Inr [])"
  by (auto simp: load_subset_def Let_def for_each_nil split: option.splits)

text \<open>
  Claim C1, as amended: with \<open>is_wav = false\<close> the loop over the walk has no branch to
  run, so \<^verbatim>\<open>load_mus_tracks\<close> builds no track at all: it returns the empty catalog
  whatever the subdirectories are (or raises for a split outside the train subset, or for
  an unset data path). The claim as stated, one Track per immediate subdirectory, fails
  on the small dataset, whose test subset has the subdirectory C.
\<close>

theorem load_mus_tracks_not_wav_empty:
  assumes "\<not> db_is_wav self"
  shows "load_mus_tracks self fs subsets split
           = (if normalize_subsets subsets \<noteq> [''train''] \<and> split \<noteq> None then Inl RuntimeError
              else if db_data_path self = None \<and> normalize_subsets subsets \<noteq> [] then Inl TypeError
              else Inr [])"
proof -
  have fe: "for_each (load_subset self fs split) (normalize_subsets subsets)
          = (if db_data_path self = None \<and> normalize_subsets subsets \<noteq> [] then Inl TypeError
             else Inr [])"
  proof (cases "db_data_path self = None \<and> normalize_subsets subsets \<noteq> []")
    case True
    then show ?thesis
      using assms by (simp add: for_each_first_Inl load_subset_not_wav)
  next
    case False
    then have "for_each (load_subset self fs split) (normalize_subsets subsets) = Inr []"
      using assms by (cases "normalize_subsets subsets = []") (auto simp: load_subset_not_wav intro!: for_each_nil)
    with False show ?thesis by simp
  qed
  show ?thesis unfolding load_mus_tracks_def Let_def fe by (rule refl)
qed

theorem load_mus_tracks_not_wav_empty_witness:
  "\<not> db_is_wav (example_db False)
   \<and> load_mus_tracks (example_db False) example_fs SubsetsNone None = Inr []"
proof -
  have h: "\<not> db_is_wav (example_db False)"
    by (simp add: example_db_def init_attributes_def)
  show ?thesis
    using h load_mus_tracks_not_wav_empty [OF h, of example_fs SubsetsNone None]
    by (simp add: normalize_subsets_def example_db_def init_attributes_def)
qed

theorem container_layout_counterexample:
  "\<not> db_is_wav (example_db False)
   \<and> os_walk example_fs ''data/test/drums''
       = [(''data/test/drums'', [''C''], []), (''data/test/drums/C'', [''0''], []),
          (''data/test/drums/C/0'', [], [''mixture.wav''])]
   \<and> os_path_exists example_fs ''data/test/drums/C/0/mixture.wav''
   \<and> load_mus_tracks (example_db False) example_fs (SubsetsStr ''test'') None = Inr []"
  by (simp add: example_db_def init_attributes_def example_fs_def example_walk_def
        load_mus_tracks_def normalize_subsets_def load_subset_def join_def join_step_def)

subsection \<open>The sample rate attribute\<close>

lemma new_track_no_sample_rate:
  "db_sample_rate self = None \<Longrightarrow> map_of (setup_stem_ids (db_setup self)) ''mixture'' \<noteq> None \<Longrightarrow>
   new_track self fs sub track_name track_folder folder_num = Inl AttributeError"
  by (auto simp: new_track_def getitem_def split: option.splits)

text \<open>
  Claim C10: \<^verbatim>\<open>__init__\<close> assigns the attribute \<^verbatim>\<open>sample_rate\<close> only when the argument
  differs from the configured value. When they are equal the attribute is never
  assigned, every construction of a track raises AttributeError (the mixture stem id
  being configured), and so does the construction of the catalog as soon as the
  traversal reaches a first track.
\<close>

theorem sample_rate_unassigned_when_equal:
  "db_sample_rate (init_attributes fs r cfg is_wav sample_rate data_path instrument)
     = (if sample_rate \<noteq> Some (setup_sample_rate cfg) then Some sample_rate else None)
   \<and> (sample_rate = Some (setup_sample_rate cfg)
        \<and> map_of (setup_stem_ids cfg) ''mixture'' \<noteq> None
      \<longrightarrow> new_track (init_attributes fs r cfg is_wav sample_rate data_path instrument)
              fs sub track_name track_folder folder_num = Inl AttributeError)
   \<and> (sample_rate = Some (setup_sample_rate cfg)
        \<and> map_of (setup_stem_ids cfg) ''mixture'' \<noteq> None
        \<and> data_path = Some dp
        \<and> \<not> (normalize_subsets subsets \<noteq> [''train''] \<and> split \<noteq> None)
        \<and> track_jobs (init_attributes fs r cfg is_wav sample_rate data_path instrument)
              fs split dp (normalize_subsets subsets) \<noteq> []
      \<longrightarrow> init fs (Some r) cfg is_wav subsets split sample_rate data_path instrument
              = Inl AttributeError)"
proof (intro conjI impI)
  let ?self = "init_attributes fs r cfg is_wav sample_rate data_path instrument"
  show "db_sample_rate ?self
     = (if sample_rate \<noteq> Some (setup_sample_rate cfg) then Some sample_rate else None)"
    by (simp add: init_attributes_def)
  {
    assume h: "sample_rate = Some (setup_sample_rate cfg)
        \<and> map_of (setup_stem_ids cfg) ''mixture'' \<noteq> None"
    then have "db_sample_rate ?self = None"
      and "map_of (setup_stem_ids (db_setup ?self)) ''mixture'' \<noteq> None"
      by (simp_all add: init_attributes_def)
    then show "new_track ?self fs sub track_name track_folder folder_num = Inl AttributeError"
      by (rule new_track_no_sample_rate)
  }
  assume h: "sample_rate = Some (setup_sample_rate cfg)
        \<and> map_of (setup_stem_ids cfg) ''mixture'' \<noteq> None
        \<and> data_path = Some dp
        \<and> \<not> (normalize_subsets subsets \<noteq> [''train''] \<and> split \<noteq> None)
        \<and> track_jobs ?self fs split dp (normalize_subsets subsets) \<noteq> []"
  then have sr: "db_sample_rate ?self = None"
    and mix: "map_of (setup_stem_ids (db_setup ?self)) ''mixture'' \<noteq> None"
    and dp: "db_data_path ?self = Some dp"
    by (simp_all add: init_attributes_def)
  from h have ne: "track_jobs ?self fs split dp (normalize_subsets subsets) \<noteq> []"
    and cfg_ok: "\<not> (normalize_subsets subsets \<noteq> [''train''] \<and> split \<noteq> None)"
    by blast+
  have "\<And>job. build_job ?self fs job = Inl AttributeError"
    using new_track_no_sample_rate[OF sr mix] by (simp add: build_job_def split: prod.splits)
  then have "for_each (build_job ?self fs) (track_jobs ?self fs split dp (normalize_subsets subsets))
               = Inl AttributeError"
    by (intro for_each_first_Inl[OF ne])
  then have "load_mus_tracks ?self fs subsets split = Inl AttributeError"
    by (simp only: load_mus_tracks_jobs[OF dp cfg_ok])
  then show "init fs (Some r) cfg is_wav subsets split sample_rate data_path instrument
              = Inl AttributeError"
    by (simp add: init_def Let_def)
qed

theorem sample_rate_unassigned_when_equal_witness:
  "init example_fs (Some ''root'') example_setup True SubsetsNone None (Some 44100) (Some ''data'')
      ''drums'' = Inl AttributeError
   \<and> (\<exists>self. init example_fs (Some ''root'') example_setup True SubsetsNone None (Some 48000)
               (Some ''data'') ''drums'' = Inr self)"
proof -
  have jobs: "track_jobs (init_attributes example_fs ''root'' example_setup True (Some 44100)
                 (Some ''data'') ''drums'') example_fs None ''data'' (normalize_subsets SubsetsNone)
              \<noteq> []"
    by code_simp
  have ok: "isl (init example_fs (Some ''root'') example_setup True SubsetsNone None (Some 48000)
               (Some ''data'') ''drums'') = False"
    by code_simp
  show ?thesis
    using jobs ok sample_rate_unassigned_when_equal
       [of example_fs "''root''" example_setup True "Some 44100" "Some ''data''" "''drums''"
           "''train''" "''A''" "''data/train/drums/A''" "''0''" "''data''" SubsetsNone None]
    by (cases "init example_fs (Some ''root'') example_setup True SubsetsNone None (Some 48000)
               (Some ''data'') ''drums''")
       (simp_all add: example_setup_def normalize_subsets_def)
qed

subsection \<open>The train and validation splits\<close>

lemma build_job_Inr:
  "build_job self fs job = Inr ts \<Longrightarrow>
     \<exists>t. ts = [t] \<and> trk_name t = fst (snd job) \<and> trk_subset t = fst job
        \<and> trk_path t = join (fst (snd (snd job)))
                          [snd (snd (snd job)), setup_mixture (db_setup self)]"
  by (cases job) (auto simp: build_job_def split: sum.splits dest: new_track_fields)

lemma for_each_build_names:
  "for_each (build_job self fs) jobs = Inr ts \<Longrightarrow> map trk_name ts = map (\<lambda>j. fst (snd j)) jobs"
proof (induction jobs arbitrary: ts)
  case Nil
  then show ?case by simp
next
  case (Cons j jobs)
  then show ?case
    by (auto split: sum.splits dest!: build_job_Inr)
qed

lemma for_each_filter:
  "for_each f xs = Inr ys \<Longrightarrow> \<exists>zs. for_each f (filter P xs) = Inr zs"
  by (induction xs arbitrary: ys) (auto split: sum.splits)

lemma variant_jobs_filter:
  "filter (\<lambda>j. P (fst (snd j))) (variant_jobs fs sub track_name track_folder)
     = (if P track_name then variant_jobs fs sub track_name track_folder else [])"
  by (auto simp: variant_jobs_def filter_concat filter_map o_def case_prod_unfold
           intro!: arg_cong[where f = concat])

lemma concat_map_if:
  "concat (map (\<lambda>x. if Q x then g x else []) xs) = concat (map g (filter Q xs))"
  by (induction xs) auto

lemma skip_track_None: "\<not> skip_track self sub None track_name"
  by (simp add: skip_track_def)

lemma kept_jobs_filter:
  "concat (map (\<lambda>track_name. variant_jobs fs sub track_name (folder_of track_name))
             (filter (\<lambda>track_name. \<not> skip_track self sub split track_name) xs))
     = filter (\<lambda>j. \<not> skip_track self sub split (fst (snd j)))
         (concat (map (\<lambda>track_name. variant_jobs fs sub track_name (folder_of track_name))
                    (filter (\<lambda>track_name. \<not> skip_track self sub None track_name) xs)))"
  by (induction xs)
     (auto simp: skip_track_None
        variant_jobs_filter[where P = "\<lambda>n. \<not> skip_track self sub split n"])

lemma walk_jobs_filter:
  assumes "\<And>folders. A folders = filter P (B folders)"
  shows "concat (map (\<lambda>(dirpath, folders, files). if w then A folders else []) ws)
           = filter P (concat (map (\<lambda>(dirpath, folders, files). if w then B folders else []) ws))"
  by (induction ws) (auto simp: assms)

lemma subset_jobs_filter:
  "subset_jobs self fs split data_path sub
     = filter (\<lambda>j. \<not> skip_track self sub split (fst (snd j)))
         (subset_jobs self fs None data_path sub)"
  unfolding subset_jobs_def
  by (rule walk_jobs_filter) (rule kept_jobs_filter)

lemma train_jobs_filter:
  "track_jobs self fs split data_path [''train'']
     = filter (\<lambda>j. \<not> skip_track self ''train'' split (fst (snd j)))
         (track_jobs self fs None data_path [''train''])"
  using subset_jobs_filter[of self fs split data_path "''train''"]
  by (simp add: track_jobs_def)

text \<open>
  Claim C4: for a fixed configuration and file system, when indexing the train subset
  without a split succeeds, indexing it with \<open>split = 'train'\<close> and with
  \<open>split = 'valid'\<close> succeeds too, the two sets of track names are disjoint and their
  union is the set of track names of the unsplit catalog.
\<close>

theorem split_partition:
  assumes "normalize_subsets subsets = [''train'']"
    and "load_mus_tracks self fs subsets None = Inr all_train"
  shows "\<exists>train_split valid_split.
      load_mus_tracks self fs subsets (Some ''train'') = Inr train_split
    \<and> load_mus_tracks self fs subsets (Some ''valid'') = Inr valid_split
    \<and> trk_name ` set train_split \<inter> trk_name ` set valid_split = {}
    \<and> trk_name ` set train_split \<union> trk_name ` set valid_split = trk_name ` set all_train"
proof -
  let ?V = "set (setup_validation_tracks (db_setup self))"
  obtain dp where dp: "db_data_path self = Some dp"
    using assms by (cases "db_data_path self")
      (auto simp: load_mus_tracks_def load_subset_def Let_def)
  let ?all = "track_jobs self fs None dp [''train'']"
  let ?keep = "\<lambda>split j. \<not> skip_track self ''train'' split (fst (snd j))"
  have run: "load_mus_tracks self fs subsets split
               = for_each (build_job self fs) (filter (?keep split) ?all)" for split
  proof -
    have ok: "\<not> (normalize_subsets subsets \<noteq> [''train''] \<and> split \<noteq> None)"
      using assms(1) by simp
    show ?thesis
      unfolding load_mus_tracks_jobs[OF dp ok] assms(1)
      by (subst train_jobs_filter) (rule refl)
  qed
  have all: "for_each (build_job self fs) ?all = Inr all_train"
  proof -
    have ok: "\<not> (normalize_subsets subsets \<noteq> [''train''] \<and> None \<noteq> (None :: string option))"
      by simp
    show ?thesis
      using assms(2) unfolding load_mus_tracks_jobs[OF dp ok] assms(1) .
  qed
  from for_each_filter[OF all] obtain train_split where
    tr: "for_each (build_job self fs) (filter (?keep (Some ''train'')) ?all) = Inr train_split"
    by blast
  from for_each_filter[OF all] obtain valid_split where
    va: "for_each (build_job self fs) (filter (?keep (Some ''valid'')) ?all) = Inr valid_split"
    by blast
  have n_all: "trk_name ` set all_train = (\<lambda>j. fst (snd j)) ` set ?all"
    using arg_cong[OF for_each_build_names[OF all], of set] by simp
  have n_tr: "trk_name ` set train_split = (\<lambda>j. fst (snd j)) ` set (filter (?keep (Some ''train'')) ?all)"
    using arg_cong[OF for_each_build_names[OF tr], of set] by simp
  have n_va: "trk_name ` set valid_split = (\<lambda>j. fst (snd j)) ` set (filter (?keep (Some ''valid'')) ?all)"
    using arg_cong[OF for_each_build_names[OF va], of set] by simp
  have k_tr: "\<And>j. ?keep (Some ''train'') j = (fst (snd j) \<notin> ?V)"
    by (simp add: skip_track_def)
  have k_va: "\<And>j. ?keep (Some ''valid'') j = (fst (snd j) \<in> ?V)"
    by (simp add: skip_track_def)
  have disj: "trk_name ` set train_split \<inter> trk_name ` set valid_split = {}"
    unfolding n_tr n_va k_tr k_va by auto
  have un: "trk_name ` set train_split \<union> trk_name ` set valid_split = trk_name ` set all_train"
    unfolding n_tr n_va n_all k_tr k_va by auto
  show ?thesis
    unfolding run using tr va disj un by blast
qed

theorem split_partition_witness:
  "map trk_name (projr (load_mus_tracks (example_db True) example_fs (SubsetsStr ''train'') None))
     = [''A'', ''A'', ''B'']
   \<and> (\<exists>train_split valid_split.
        load_mus_tracks (example_db True) example_fs (SubsetsStr ''train'') (Some ''train'')
          = Inr train_split
      \<and> load_mus_tracks (example_db True) example_fs (SubsetsStr ''train'') (Some ''valid'')
          = Inr valid_split
      \<and> trk_name ` set train_split \<inter> trk_name ` set valid_split = {}
      \<and> trk_name ` set train_split \<union> trk_name ` set valid_split
          = trk_name ` set (projr (load_mus_tracks (example_db True) example_fs
                                     (SubsetsStr ''train'') None)))"
proof -
  have h1: "normalize_subsets (SubsetsStr ''train'') = [''train'']"
    by (simp add: normalize_subsets_def)
  have "isl (load_mus_tracks (example_db True) example_fs (SubsetsStr ''train'') None) = False"
    by code_simp
  then have h2: "load_mus_tracks (example_db True) example_fs (SubsetsStr ''train'') None
      = Inr (projr (load_mus_tracks (example_db True) example_fs (SubsetsStr ''train'') None))"
    by (cases "load_mus_tracks (example_db True) example_fs (SubsetsStr ''train'') None") simp_all
  have names: "map trk_name (projr (load_mus_tracks (example_db True) example_fs
                                      (SubsetsStr ''train'') None)) = [''A'', ''A'', ''B'']"
    by code_simp
  show ?thesis
    using names split_partition [OF h1 h2] by blast
qed

subsection \<open>Tracks with missing source files\<close>

lemma add_sources_keys:
  "add_sources self fs track_folder folder_num decl acc = Inr sources \<Longrightarrow>
     fst ` set sources = fst ` set acc
       \<union> {src. \<exists>source_file. (src, source_file) \<in> set decl
                \<and> os_path_exists fs (join track_folder [folder_num, source_file])}"
proof (induction decl arbitrary: acc)
  case Nil
  then show ?case by simp
next
  case (Cons p rest)
  obtain src source_file where p: "p = (src, source_file)" by (cases p)
  show ?case
  proof (cases "os_path_exists fs (join track_folder [folder_num, source_file])")
    case True
    with Cons.prems obtain acc' where
      acc': "add_sources self fs track_folder folder_num rest acc' = Inr sources"
        "fst ` set acc' = {src} \<union> fst ` set acc"
      by (auto simp: p Let_def AList.dom_update split: sum.splits option.splits)
    from Cons.IH[OF acc'(1)] acc'(2) True show ?thesis
      by (auto simp: p)
  next
    case False
    with Cons.prems have "add_sources self fs track_folder folder_num rest acc = Inr sources"
      by (simp add: p Let_def)
    from Cons.IH[OF this] False show ?thesis
      by (auto simp: p)
  qed
qed

lemma add_sources_fewer_files:
  "add_sources self fs track_folder folder_num decl acc = Inr sources \<Longrightarrow>
   (\<And>p. os_path_exists fs' p \<Longrightarrow> os_path_exists fs p) \<Longrightarrow>
   \<exists>sources'. add_sources self fs' track_folder folder_num decl acc' = Inr sources'"
proof (induction decl arbitrary: acc acc')
  case Nil
  then show ?case by simp
next
  case (Cons p rest)
  obtain src source_file where p: "p = (src, source_file)" by (cases p)
  show ?case
  proof (cases "os_path_exists fs (join track_folder [folder_num, source_file])")
    case True
    with Cons.prems(1) obtain stem_id sample_rate acc2 where
      ok: "getitem (setup_stem_ids (db_setup self)) src = Inr stem_id"
          "db_sample_rate self = Some sample_rate"
          "add_sources self fs track_folder folder_num rest acc2 = Inr sources"
      by (auto simp: p Let_def split: sum.splits option.splits)
    show ?thesis
      proof -
      have "\<And>a. \<exists>sources'. add_sources self fs' track_folder folder_num rest a = Inr sources'"
        by (rule Cons.IH[OF ok(3)]) (rule Cons.prems(2))
      then show ?thesis
        using ok(1,2) by (simp add: p Let_def)
    qed
  next
    case False
    with Cons.prems(1) have r: "add_sources self fs track_folder folder_num rest acc = Inr sources"
      by (simp add: p Let_def)
    from False Cons.prems(2) have "\<not> os_path_exists fs' (join track_folder [folder_num, source_file])"
      by blast
    moreover have "\<exists>sources'. add_sources self fs' track_folder folder_num rest acc' = Inr sources'"
      by (rule Cons.IH[OF r]) (rule Cons.prems(2))
    ultimately show ?thesis by (simp add: p Let_def)
  qed
qed

lemma converts_subset: "K' \<subseteq> K \<Longrightarrow> converts K items \<Longrightarrow> converts K' items"
  by (auto simp: converts_def)

lemma create_targets_fewer_sources:
  assumes "create_targets self track = Inr r"
    and "fst ` set (trk_sources track') \<subseteq> fst ` set (trk_sources track)"
  shows "\<exists>r'. create_targets self track' = Inr r'"
proof -
  from assms(1)
  have "\<forall>(name, target_srcs)\<in>set (setup_targets (db_setup self)).
          converts (fst ` set (trk_sources track)) target_srcs"
    unfolding create_targets_eq by (auto split: if_splits)
  then have "\<forall>(name, target_srcs)\<in>set (setup_targets (db_setup self)).
          converts (fst ` set (trk_sources track')) target_srcs"
    using converts_subset[OF assms(2)] by blast
  then show ?thesis
    unfolding create_targets_eq by simp
qed

lemma new_track_fewer_files:
  assumes "new_track self fs sub track_name track_folder folder_num = Inr t"
    and "\<And>p. os_path_exists fs' p \<Longrightarrow> os_path_exists fs p"
  shows "\<exists>t'. new_track self fs' sub track_name track_folder folder_num = Inr t'"
proof -
  let ?base = "\<lparr>trk_name = track_name,
                 trk_path = join track_folder [folder_num, setup_mixture (db_setup self)],
                 trk_subset = sub, trk_is_wav = db_is_wav self,
                 trk_stem_id = the (map_of (setup_stem_ids (db_setup self)) ''mixture''),
                 trk_sample_rate = the (db_sample_rate self),
                 trk_sources = [], trk_targets = []\<rparr>"
  from assms(1) obtain stem_id sample_rate sources r where
    ok: "getitem (setup_stem_ids (db_setup self)) ''mixture'' = Inr stem_id"
        "db_sample_rate self = Some sample_rate"
        "add_sources self fs track_folder folder_num (setup_sources (db_setup self)) [] = Inr sources"
    and ct: "create_targets self (?base\<lparr>trk_sources := sources\<rparr>) = Inr r"
    by (auto simp: new_track_def Let_def getitem_def split: sum.splits option.splits)
  have "\<exists>sources'. add_sources self fs' track_folder folder_num
                       (setup_sources (db_setup self)) [] = Inr sources'"
    by (rule add_sources_fewer_files[OF ok(3)]) (rule assms(2))
  then obtain sources' where
    s': "add_sources self fs' track_folder folder_num (setup_sources (db_setup self)) [] = Inr sources'"
    by blast
  have "fst ` set sources' \<subseteq> fst ` set sources"
    unfolding add_sources_keys[OF s'] add_sources_keys[OF ok(3)] using assms(2) by auto
  then have "\<exists>r'. create_targets self (?base\<lparr>trk_sources := sources'\<rparr>) = Inr r'"
    by (intro create_targets_fewer_sources[OF ct]) simp
  then obtain r' where "create_targets self (?base\<lparr>trk_sources := sources'\<rparr>) = Inr r'"
    by blast
  with ok(1,2) s' show ?thesis
    by (cases r') (auto simp: new_track_def Let_def getitem_def split: option.splits)
qed

lemma build_job_fewer_files:
  assumes "build_job self fs job = Inr ts"
    and "\<And>p. os_path_exists fs' p \<Longrightarrow> os_path_exists fs p"
  shows "\<exists>ts'. build_job self fs' job = Inr ts'"
proof -
  obtain sub track_name track_folder folder_num
    where job: "job = (sub, track_name, track_folder, folder_num)" by (cases job)
  from assms(1) obtain t where "new_track self fs sub track_name track_folder folder_num = Inr t"
    by (auto simp: build_job_def job split: sum.splits)
  then have "\<exists>t'. new_track self fs' sub track_name track_folder folder_num = Inr t'"
    by (rule new_track_fewer_files) (rule assms(2))
  then show ?thesis
    by (auto simp: build_job_def job)
qed

lemma for_each_Inr_transfer:
  "for_each f xs = Inr ys \<Longrightarrow> (\<And>x zs. x \<in> set xs \<Longrightarrow> f x = Inr zs \<Longrightarrow> \<exists>zs'. g x = Inr zs') \<Longrightarrow>
     \<exists>ys'. for_each g xs = Inr ys'"
proof (induction xs arbitrary: ys)
  case Nil
  then show ?case by simp
next
  case (Cons x xs)
  from Cons.prems(1) obtain a b where a: "f x = Inr a" and b: "for_each f xs = Inr b"
    by (auto split: sum.splits)
  from Cons.prems(2)[OF _ a] obtain a' where a': "g x = Inr a'" by auto
  from Cons.IH[OF b] Cons.prems(2) obtain b' where "for_each g xs = Inr b'" by auto
  with a' show ?case by simp
qed

lemma for_each_build_paths:
  "for_each (build_job self fs) jobs = Inr ts \<Longrightarrow>
     map trk_path ts = map (\<lambda>j. join (fst (snd (snd j)))
                                  [snd (snd (snd j)), setup_mixture (db_setup self)]) jobs"
proof (induction jobs arbitrary: ts)
  case Nil
  then show ?case by simp
next
  case (Cons j jobs)
  then show ?case
    by (auto split: sum.splits dest!: build_job_Inr)
qed

lemma variant_jobs_walk:
  assumes "os_walk fs' = os_walk fs"
  shows "variant_jobs fs' = variant_jobs fs"
  unfolding variant_jobs_def[abs_def] assms by (rule refl)

lemma subset_jobs_walk:
  assumes "os_walk fs' = os_walk fs"
  shows "subset_jobs self fs' = subset_jobs self fs"
  unfolding subset_jobs_def[abs_def] variant_jobs_walk[OF assms] assms by (rule refl)

lemma track_jobs_walk:
  assumes "os_walk fs' = os_walk fs"
  shows "track_jobs self fs' split data_path subsets = track_jobs self fs split data_path subsets"
  unfolding track_jobs_def subset_jobs_walk[OF assms] by (rule refl)

lemma load_mus_tracks_fewer_files:
  assumes "load_mus_tracks self fs subsets split = Inr tracks"
    and "os_walk fs' = os_walk fs"
    and "\<And>p. os_path_exists fs' p \<Longrightarrow> os_path_exists fs p"
  shows "\<exists>tracks'. load_mus_tracks self fs' subsets split = Inr tracks'
           \<and> map trk_name tracks' = map trk_name tracks
           \<and> map trk_path tracks' = map trk_path tracks"
proof (cases "db_data_path self")
  case None
  then have noload: "\<And>f. load_subset self f split = (\<lambda>sub. Inl TypeError)"
    by (simp add: load_subset_def fun_eq_iff)
  have "load_mus_tracks self fs' subsets split = load_mus_tracks self fs subsets split"
    unfolding load_mus_tracks_def noload by (rule refl)
  with assms(1) show ?thesis by simp
next
  case (Some dp)
  have ok: "\<not> (normalize_subsets subsets \<noteq> [''train''] \<and> split \<noteq> None)"
    using assms(1) by (auto simp: load_mus_tracks_def Let_def split: if_splits)
  let ?jobs = "track_jobs self fs split dp (normalize_subsets subsets)"
  have run: "for_each (build_job self fs) ?jobs = Inr tracks"
    using assms(1) unfolding load_mus_tracks_jobs[OF Some ok] .
  have "\<And>job ts. build_job self fs job = Inr ts \<Longrightarrow> \<exists>ts'. build_job self fs' job = Inr ts'"
    by (rule build_job_fewer_files) (assumption, rule assms(3))
  then have "\<exists>tracks'. for_each (build_job self fs') ?jobs = Inr tracks'"
    by (intro for_each_Inr_transfer[OF run])
  then obtain tracks' where run': "for_each (build_job self fs') ?jobs = Inr tracks'" ..
  have l: "load_mus_tracks self fs' subsets split = Inr tracks'"
    unfolding load_mus_tracks_jobs[OF Some ok] track_jobs_walk[OF assms(2)] by (rule run')
  have n: "map trk_name tracks' = map trk_name tracks"
    by (rule trans[OF for_each_build_names[OF run'] for_each_build_names[OF run, symmetric]])
  have p: "map trk_path tracks' = map trk_path tracks"
    by (rule trans[OF for_each_build_paths[OF run'] for_each_build_paths[OF run, symmetric]])
  from l n p show ?thesis by blast
qed

lemma update_set:
  "(a, b) \<in> set (AList.update k v al) \<Longrightarrow> (a, b) = (k, v) \<or> (a, b) \<in> set al"
  by (induction al) (auto split: if_splits)

lemma apply_targets_inv:
  assumes "\<forall>(n, tg) \<in> set targets. tgt_sources tg \<noteq> [] \<and> set (tgt_sources tg) \<subseteq> K"
    and "fst ` set sources = K"
  shows "\<forall>(n, tg) \<in> set (snd (apply_targets spec sources targets)).
           tgt_sources tg \<noteq> [] \<and> set (tgt_sources tg) \<subseteq> K"
  using assms
proof (induction spec arbitrary: sources targets)
  case Nil
  then show ?case by simp
next
  case (Cons p rest)
  obtain name target_srcs where p: "p = (name, target_srcs)" by (cases p)
  obtain sources' refs where a: "apply_target target_srcs sources [] = (sources', refs)"
    by (cases "apply_target target_srcs sources []")
  have refs: "refs = present sources target_srcs"
    using apply_target_refs[of target_srcs sources "[]"] a by simp
  have keys: "fst ` set sources' = K"
    using apply_target_keys[of target_srcs sources "[]"] a Cons.prems(2)
    by (metis fst_conv list.set_map)
  have sub: "set refs \<subseteq> K"
    using Cons.prems(2) by (auto simp: refs present_def)
  show ?case
  proof (cases "refs = []")
    case True
    then show ?thesis
      using Cons.IH[OF Cons.prems(1) keys] by (simp add: p a)
  next
    case False
    have "\<forall>(n, tg) \<in> set (AList.update name \<lparr>tgt_name = name, tgt_sources = refs\<rparr> targets).
            tgt_sources tg \<noteq> [] \<and> set (tgt_sources tg) \<subseteq> K"
      using Cons.prems(1) False sub by (auto dest!: update_set)
    from Cons.IH[OF this keys] False show ?thesis
      by (simp add: p a)
  qed
qed

lemma apply_targets_dom:
  "fst ` set (snd (apply_targets spec sources targets))
     = fst ` set targets
       \<union> {n. \<exists>ts. (n, ts) \<in> set spec \<and> (\<exists>s\<in>fst ` set ts. s \<in> fst ` set sources)}"
proof (induction spec arbitrary: sources targets)
  case Nil
  then show ?case by simp
next
  case (Cons p rest)
  obtain name target_srcs where p: "p = (name, target_srcs)" by (cases p)
  obtain sources' refs where a: "apply_target target_srcs sources [] = (sources', refs)"
    by (cases "apply_target target_srcs sources []")
  have refs: "refs = present sources target_srcs"
    using apply_target_refs[of target_srcs sources "[]"] a by simp
  have keys: "fst ` set sources' = fst ` set sources"
    using apply_target_keys[of target_srcs sources "[]"] a
    by (metis fst_conv list.set_map)
  have ne: "(refs \<noteq> []) = (\<exists>s\<in>fst ` set target_srcs. s \<in> fst ` set sources)"
    by (simp add: refs present_nonempty)
  show ?case
  proof (cases "refs = []")
    case True
    with ne have "\<not> (\<exists>s\<in>fst ` set target_srcs. s \<in> fst ` set sources)" by simp
    then show ?thesis
      using True by (auto simp: p a Cons.IH keys)
  next
    case False
    with ne have "\<exists>s\<in>fst ` set target_srcs. s \<in> fst ` set sources" by simp
    then show ?thesis
      using False by (auto simp: p a Cons.IH keys AList.dom_update)
  qed
qed

lemma new_track_Inr:
  assumes "new_track self fs sub track_name track_folder folder_num = Inr t"
  shows "\<exists>sources.
           add_sources self fs track_folder folder_num (setup_sources (db_setup self)) [] = Inr sources
         \<and> trk_sources t = fst (apply_targets (setup_targets (db_setup self)) sources [])
         \<and> trk_targets t = snd (apply_targets (setup_targets (db_setup self)) sources [])"
  using assms
  by (auto simp: new_track_def Let_def create_targets_eq
           split: sum.splits option.splits prod.splits if_splits)

text \<open>
  Claim C5: in a track that indexing built, the keys of \<open>sources\<close> are exactly the
  declared source names whose candidate path exists; every target's source list is
  nonempty and made of sources of the track, so an absent source is in no list; and the
  targets of the track are exactly the declared targets with at least one source in the
  track. Missing files never abort: when indexing succeeds, it also succeeds on a file
  system with the same directories and fewer files, and the catalog has the same tracks
  (names and mixture paths, in order).
\<close>

theorem partial_track_tolerance:
  "(new_track self fs sub track_name track_folder folder_num = Inr t \<longrightarrow>
      fst ` set (trk_sources t)
        = {src. \<exists>source_file. (src, source_file) \<in> set (setup_sources (db_setup self))
                 \<and> os_path_exists fs (join track_folder [folder_num, source_file])}
    \<and> (\<forall>(name, tg) \<in> set (trk_targets t).
          tgt_sources tg \<noteq> [] \<and> set (tgt_sources tg) \<subseteq> fst ` set (trk_sources t))
    \<and> fst ` set (trk_targets t)
        = {name. \<exists>target_srcs. (name, target_srcs) \<in> set (setup_targets (db_setup self))
                  \<and> (\<exists>s\<in>fst ` set target_srcs. s \<in> fst ` set (trk_sources t))})
   \<and> (load_mus_tracks self fs subsets split = Inr tracks
        \<and> os_walk fs' = os_walk fs
        \<and> (\<forall>p. os_path_exists fs' p \<longrightarrow> os_path_exists fs p) \<longrightarrow>
      (\<exists>tracks'. load_mus_tracks self fs' subsets split = Inr tracks'
          \<and> map trk_name tracks' = map trk_name tracks
          \<and> map trk_path tracks' = map trk_path tracks))"
proof (intro conjI impI)
  assume nt: "new_track self fs sub track_name track_folder folder_num = Inr t"
  from new_track_Inr[OF nt] obtain sources where
    src: "add_sources self fs track_folder folder_num (setup_sources (db_setup self)) [] = Inr sources"
    and ts: "trk_sources t = fst (apply_targets (setup_targets (db_setup self)) sources [])"
    and tt: "trk_targets t = snd (apply_targets (setup_targets (db_setup self)) sources [])"
    by blast
  have keys: "fst ` set (trk_sources t) = fst ` set sources"
    using apply_targets_keys[of "setup_targets (db_setup self)" sources "[]"]
    unfolding ts by (metis list.set_map)
  show "fst ` set (trk_sources t)
        = {src. \<exists>source_file. (src, source_file) \<in> set (setup_sources (db_setup self))
                 \<and> os_path_exists fs (join track_folder [folder_num, source_file])}"
    unfolding keys using add_sources_keys[OF src] by simp
  have "\<forall>(n, tg) \<in> set (snd (apply_targets (setup_targets (db_setup self)) sources [])).
          tgt_sources tg \<noteq> [] \<and> set (tgt_sources tg) \<subseteq> fst ` set sources"
    by (rule apply_targets_inv) simp_all
  then show "\<forall>(name, tg) \<in> set (trk_targets t).
          tgt_sources tg \<noteq> [] \<and> set (tgt_sources tg) \<subseteq> fst ` set (trk_sources t)"
    unfolding keys tt .
  show "fst ` set (trk_targets t)
        = {name. \<exists>target_srcs. (name, target_srcs) \<in> set (setup_targets (db_setup self))
                  \<and> (\<exists>s\<in>fst ` set target_srcs. s \<in> fst ` set (trk_sources t))}"
    unfolding keys tt apply_targets_dom by simp
next
  assume h: "load_mus_tracks self fs subsets split = Inr tracks
        \<and> os_walk fs' = os_walk fs
        \<and> (\<forall>p. os_path_exists fs' p \<longrightarrow> os_path_exists fs p)"
  then have 1: "load_mus_tracks self fs subsets split = Inr tracks"
    and 2: "os_walk fs' = os_walk fs"
    and 3: "\<And>p. os_path_exists fs' p \<Longrightarrow> os_path_exists fs p"
    by blast+
  show "\<exists>tracks'. load_mus_tracks self fs' subsets split = Inr tracks'
          \<and> map trk_name tracks' = map trk_name tracks
          \<and> map trk_path tracks' = map trk_path tracks"
    by (rule load_mus_tracks_fewer_files[OF 1 2]) (rule 3)
qed

theorem partial_track_tolerance_witness:
  "map fst (trk_sources (projr (new_track (example_db True) example_fs ''train'' ''A''
                                  ''data/train/drums/A'' ''1''))) = [''drums'']
   \<and> fst ` set (trk_targets (projr (new_track (example_db True) example_fs ''train'' ''A''
                                  ''data/train/drums/A'' ''1''))) = {''drums'', ''accompaniment''}
   \<and> (\<exists>tracks'. load_mus_tracks (example_db True) (example_fs\<lparr>os_path_exists := \<lambda>p. False\<rparr>)
                     SubsetsNone None = Inr tracks'
          \<and> map trk_name tracks' = [''A'', ''A'', ''B'', ''C''])"
proof -
  let ?nt = "new_track (example_db True) example_fs ''train'' ''A'' ''data/train/drums/A'' ''1''"
  let ?ld = "load_mus_tracks (example_db True) example_fs SubsetsNone None"
  have "isl ?nt = False" by code_simp
  then have h1: "?nt = Inr (projr ?nt)" by (cases ?nt) simp_all
  have "isl ?ld = False" by code_simp
  then have h2: "?ld = Inr (projr ?ld)" by (cases ?ld) simp_all
  have h3: "os_walk (example_fs\<lparr>os_path_exists := \<lambda>p. False\<rparr>) = os_walk example_fs"
    by simp
  have h4: "\<forall>p. os_path_exists (example_fs\<lparr>os_path_exists := \<lambda>p. False\<rparr>) p
               \<longrightarrow> os_path_exists example_fs p"
    by simp
  have srcs: "map fst (trk_sources (projr ?nt)) = [''drums'']" by code_simp
  have tgts: "map fst (trk_targets (projr ?nt)) = [''drums'', ''accompaniment'']" by code_simp
  have names: "map trk_name (projr ?ld) = [''A'', ''A'', ''B'', ''C'']" by code_simp
  have tg: "fst ` set (trk_targets (projr ?nt)) = {''drums'', ''accompaniment''}"
    using arg_cong[OF tgts, of set] by simp
  have "\<exists>tracks'. load_mus_tracks (example_db True) (example_fs\<lparr>os_path_exists := \<lambda>p. False\<rparr>)
                     SubsetsNone None = Inr tracks'
          \<and> map trk_name tracks' = map trk_name (projr ?ld)
          \<and> map trk_path tracks' = map trk_path (projr ?ld)"
    by (rule partial_track_tolerance
         [of "example_db True" example_fs "''train''" "''A''" "''data/train/drums/A''" "''1''"
             "projr ?nt" SubsetsNone None "projr ?ld" "example_fs\<lparr>os_path_exists := \<lambda>p. False\<rparr>",
          THEN conjunct2, THEN mp])
       (intro conjI h2 h3 h4)
  then obtain tracks' where
    t: "load_mus_tracks (example_db True) (example_fs\<lparr>os_path_exists := \<lambda>p. False\<rparr>)
          SubsetsNone None = Inr tracks'"
       "map trk_name tracks' = map trk_name (projr ?ld)"
    by blast
  have n': "map trk_name tracks' = [''A'', ''A'', ''B'', ''C'']"
    by (rule trans[OF t(2) names])
  have e: "\<exists>tracks'. load_mus_tracks (example_db True)
              (example_fs\<lparr>os_path_exists := \<lambda>p. False\<rparr>) SubsetsNone None = Inr tracks'
          \<and> map trk_name tracks' = [''A'', ''A'', ''B'', ''C'']"
    by (rule exI[of _ tracks']) (rule conjI[OF t(1) n'])
  show ?thesis by (intro conjI srcs tg e)
qed

end
